theory Spec2Isabelle
  imports Complex_Main "HOL-Library.Word"
begin

section \<open>Python values\<close>

text \<open>
  A Python \<open>str\<close> is a sequence of Unicode code points, so it is modelled as a list of
  natural numbers (the code points) and not as a list of 8-bit characters: the regular
  expressions, \<open>str.strip\<close> and \<open>str.split\<close> of the source classify code points.
  \<open>str\<close> turns a HOL string literal into such a value.
\<close>

type_synonym pystr = "nat list"

type_synonym bytes = "8 word list"

definition str :: "string \<Rightarrow> pystr" where
  "str s = map of_char s"

text \<open>
  The code points for which CPython's \<open>Py_UNICODE_ISSPACE\<close> holds. The class \<open>\s\<close> of
  \<open>re\<close>, \<open>str.strip()\<close> and \<open>str.split()\<close> all use this predicate.
\<close>

definition isspace :: "nat \<Rightarrow> bool" where
  "isspace c \<longleftrightarrow>
     c \<in> set [9, 10, 11, 12, 13, 28, 29, 30, 31, 32, 133, 160, 5760,
              8232, 8233, 8239, 8287, 12288]
     \<or> (8192 \<le> c \<and> c \<le> 8202)"

text \<open>
  An exception of class \<open>Exception\<close> or of one of its subclasses. Every handler of the
  source is \<open>except Exception\<close> and only ever looks at \<open>str(e)\<close>, so the value carries
  that message and not the class.
\<close>

datatype exn = Exception (message: pystr)

text \<open>
  \<open>print(text)\<close> hands the text to \<open>sys.stdout\<close>, taken to be a text stream that encodes
  to UTF-8 with the error handler \<open>strict\<close>, as Python opens it in a UTF-8 locale. Every
  code point has a UTF-8 encoding except the surrogates U+D800 to U+DFFF: a text without
  them is written, and on a text that holds one \<open>print\<close> raises \<open>UnicodeEncodeError\<close>.
  What is written is not part of the state. The prints that are modelled are those whose
  text holds an exception or a value passed in by the caller; a line made of fixed text
  and of numbers is always written.
\<close>

definition is_surrogate :: "nat \<Rightarrow> bool" where
  "is_surrogate c \<longleftrightarrow> 55296 \<le> c \<and> c \<le> 57343"

definition encodable :: "pystr \<Rightarrow> bool" where
  "encodable s \<longleftrightarrow> list_all (\<lambda>c. \<not> is_surrogate c) s"

text \<open>\<open>str(n)\<close> for an \<open>int\<close>: the decimal digits, after a minus sign when negative.\<close>

function decimal :: "nat \<Rightarrow> pystr" where
  "decimal n = (if n < 10 then [48 + n] else decimal (n div 10) @ [48 + n mod 10])"
  by pat_completeness auto
termination
  by (relation "measure (\<lambda>n. n)") auto

declare decimal.simps [simp del]

definition str_int :: "int \<Rightarrow> pystr" where
  "str_int i = (if i < 0 then 45 # decimal (nat (- i)) else decimal (nat i))"

text \<open>The four lower-case hexadecimal digits of a code point below U+10000.\<close>

definition hex_digit :: "nat \<Rightarrow> nat" where
  "hex_digit d = (if d < 10 then 48 + d else 87 + d)"

definition hex4 :: "nat \<Rightarrow> pystr" where
  "hex4 c = map hex_digit [c div 4096 mod 16, c div 256 mod 16, c div 16 mod 16, c mod 16]"

text \<open>
  The \<open>UnicodeEncodeError\<close> of the UTF-8 encoder on a text that holds a surrogate, by its
  message. The encoder stops at the first surrogate and reports the run of surrogates
  that starts there. For a run of one the message names the code point, as a backslash,
  \<open>u\<close> and four hexadecimal digits between quotes, and its position \<open>P\<close>:
  \<open>'utf-8' codec can't encode character ... in position P: surrogates not allowed\<close>. For
  a longer run it names the first and the last position:
  \<open>'utf-8' codec can't encode characters in position P-Q: surrogates not allowed\<close>.
  Positions count code points from 0.
\<close>

definition unicode_encode_error :: "pystr \<Rightarrow> exn" where
  "unicode_encode_error s =
     (let start = length (takeWhile (\<lambda>c. \<not> is_surrogate c) s);
          stop = start + length (takeWhile is_surrogate (drop start s))
      in Exception
           ([39] @ str ''utf-8'' @ [39] @ str '' codec can'' @ [39] @ str ''t encode ''
            @ (if stop = start + 1
               then str ''character '' @ [39, 92, 117] @ hex4 (s ! start) @ [39]
                    @ str '' in position '' @ decimal start
               else str ''characters in position '' @ decimal start @ [45]
                    @ decimal (stop - 1))
            @ str '': surrogates not allowed''))"

text \<open>\<open>print(s)\<close>: \<open>None\<close> when the line is written, and otherwise the exception raised.\<close>

definition py_print :: "pystr \<Rightarrow> exn option" where
  "py_print s = (if encodable s then None else Some (unicode_encode_error s))"

text \<open>
  An \<open>except\<close> clause that prints a line and then raises \<open>e\<close>: what leaves the clause is
  the exception of \<open>print\<close> when the line cannot be written, and \<open>e\<close> otherwise.
\<close>

definition print_then_raise :: "pystr \<Rightarrow> exn \<Rightarrow> exn" where
  "print_then_raise line e = (case py_print line of Some e' \<Rightarrow> e' | None \<Rightarrow> e)"

text \<open>A \<open>Dict[str, int]\<close>; reading a missing key raises \<open>KeyError\<close>.\<close>

type_synonym int_dict = "pystr \<rightharpoonup> int"

definition getitem :: "int_dict \<Rightarrow> pystr \<Rightarrow> exn + int" where
  "getitem d k = (case d k of None \<Rightarrow> Inl (Exception ([39] @ k @ [39])) | Some v \<Rightarrow> Inr v)"

text \<open>
  The bounds of a slice \<open>xs[a:b]\<close>: a negative bound counts from the end, and both are
  clamped to \<open>0..len(xs)\<close>.
\<close>

definition slice_bound :: "int \<Rightarrow> nat \<Rightarrow> nat" where
  "slice_bound a n = (if a < 0 then nat (max 0 (a + int n)) else min n (nat a))"

definition py_slice :: "'a list \<Rightarrow> int \<Rightarrow> int \<Rightarrow> 'a list" where
  "py_slice xs a b =
     (let lo = slice_bound a (length xs); hi = slice_bound b (length xs)
      in take (hi - lo) (drop lo xs))"

text \<open>\<open>sep.join(ws)\<close>\<close>

fun join :: "pystr \<Rightarrow> pystr list \<Rightarrow> pystr" where
  "join sep [] = []"
| "join sep [w] = w"
| "join sep (w # v # ws) = w @ sep @ join sep (v # ws)"

text \<open>\<open>s.split()\<close>: the maximal runs of non-whitespace code points, in order.\<close>

function split :: "pystr \<Rightarrow> pystr list" where
  "split [] = []"
| "split (c # cs) =
     (if isspace c then split cs
      else (c # takeWhile (\<lambda>x. \<not> isspace x) cs)
             # split (dropWhile (\<lambda>x. \<not> isspace x) cs))"
  by pat_completeness auto
termination
  by (relation "measure length") (auto simp: length_dropWhile_le less_Suc_eq_le)

text \<open>\<open>s.strip()\<close>\<close>

definition strip :: "pystr \<Rightarrow> pystr" where
  "strip s = rev (dropWhile isspace (rev (dropWhile isspace s)))"


section \<open>services/pdf\_extractor.py: text cleaning\<close>

text \<open>
  The character class \<open>[^\S\r\n]\<close>: whitespace other than carriage return (13) and
  line feed (10).
\<close>

definition hspace :: "nat \<Rightarrow> bool" where
  "hspace c \<longleftrightarrow> isspace c \<and> c \<noteq> 13 \<and> c \<noteq> 10"

text \<open>
  \<open>re.sub(r'[^\S\r\n]+', ' ', text)\<close>: scanning from the left, every maximal run of
  such code points is replaced by one space (32).
\<close>

function sub_spaces :: "pystr \<Rightarrow> pystr" where
  "sub_spaces [] = []"
| "sub_spaces (c # cs) =
     (if hspace c then 32 # sub_spaces (dropWhile hspace cs)
      else c # sub_spaces cs)"
  by pat_completeness auto
termination
  by (relation "measure length") (auto simp: length_dropWhile_le less_Suc_eq_le)

text \<open>
  \<open>re.sub(r'\n\s*\n', '\n', text)\<close>. A match starts at a line feed; the greedy \<open>\s*\<close>
  takes the whole whitespace run that follows and backtracks to the last line feed of
  that run, so there is a match exactly when the run holds a line feed, and the input
  left after the match is what follows that last line feed (\<open>after_blank_lines\<close>). The
  scan goes on after the match; without a match the code point is copied.
\<close>

definition after_blank_lines :: "pystr \<Rightarrow> pystr" where
  "after_blank_lines cs =
     rev (takeWhile (\<lambda>c. c \<noteq> 10) (rev (takeWhile isspace cs))) @ dropWhile isspace cs"

function sub_newlines :: "pystr \<Rightarrow> pystr" where
  "sub_newlines [] = []"
| "sub_newlines (c # cs) =
     (if c = 10 \<and> 10 \<in> set (takeWhile isspace cs)
      then 10 # sub_newlines (after_blank_lines cs)
      else c # sub_newlines cs)"
  by pat_completeness auto
termination
proof (relation "measure length")
  show "wf (measure length)" by simp
next
  fix c :: nat and cs :: pystr
  have "length (takeWhile (\<lambda>c. c \<noteq> 10) (rev (takeWhile isspace cs)))
          \<le> length (takeWhile isspace cs)"
    by (metis length_rev length_takeWhile_le)
  moreover have "length (takeWhile isspace cs) + length (dropWhile isspace cs) = length cs"
    by (metis length_append takeWhile_dropWhile_id)
  ultimately have "length (after_blank_lines cs) \<le> length cs"
    by (simp add: after_blank_lines_def)
  then show "(after_blank_lines cs, c # cs) \<in> measure length" by simp
qed simp

definition clean_text :: "pystr \<Rightarrow> pystr" where
  "clean_text text = strip (sub_newlines (sub_spaces text))"


section \<open>Data classes\<close>

record PageChunk =
  page_number :: int
  chunk_index :: int
  content :: pystr

record EmbeddingResult =
  embedding :: "real list"

record VectorChunk =
  document_id :: pystr
  user_id :: pystr
  chat_id :: pystr
  page_number :: int
  chunk_index :: int
  content :: pystr
  embedding :: "real list"

record PipelineResult =
  success :: bool
  page_count :: int
  total_chunks :: int
  error :: "pystr option"


section \<open>The collaborators and the state outside the process\<close>

text \<open>
  What the run leaves outside the process: the \<open>input\<close> of every POST sent to the
  embeddings API, the rows of every bulk insert issued on table \<open>document_chunks\<close>, and
  the rows the table holds. The table takes the rows of a bulk insert exactly when the
  insert reports no error.
\<close>

record world =
  jina_requests :: "pystr list list"
  insert_requests :: "VectorChunk list list"
  document_chunks :: "VectorChunk list"

text \<open>
  The response of \<open>requests.post\<close>. \<open>json_data\<close> is \<open>response.json()['data']\<close>: \<open>None\<close>
  when the body is not JSON or has no list under \<open>'data'\<close> (the source raises there), and
  otherwise one entry per item, \<open>None\<close> for an item without an \<open>'embedding'\<close> key.
\<close>

record http_response =
  ok :: bool
  status_code :: int
  response_text :: pystr
  json_data :: "real list option list option"

text \<open>
  The response of \<open>insert(rows).execute()\<close>: \<open>response_error\<close> is its \<open>error\<close> attribute,
  \<open>None\<close> when the response has none.
\<close>

record api_response =
  response_error :: "pystr option"

text \<open>
  The external services, as parameters of the model. Each call either raises or
  returns; the embeddings API and the table may answer differently from call to call,
  so they see the state.
\<close>

record collaborators =
  storage_download :: "pystr \<Rightarrow> exn + bytes option"
  pdf_reader :: "bytes \<Rightarrow> exn + (exn + pystr) list"
  requests_post :: "world \<Rightarrow> pystr list \<Rightarrow> exn + http_response"
  table_insert :: "world \<Rightarrow> VectorChunk list \<Rightarrow> exn + api_response"


section \<open>services/embedder.py\<close>

text \<open>
  The list comprehension over \<open>data['data']\<close>. An item without \<open>'embedding'\<close> raises
  \<open>KeyError\<close>: the result is \<open>None\<close>.
\<close>

fun embedding_results :: "real list option list \<Rightarrow> EmbeddingResult list option" where
  "embedding_results [] = Some []"
| "embedding_results (None # items) = None"
| "embedding_results (Some v # items) =
     (case embedding_results items of
        None \<Rightarrow> None
      | Some rs \<Rightarrow> Some (\<lparr>EmbeddingResult.embedding = v\<rparr> # rs))"

text \<open>
  \<open>generate_batch_embeddings\<close>. Whatever is raised inside the \<open>try\<close> (by the POST, by the
  status check, by \<open>response.json()\<close> or by the comprehension) is caught and printed, and
  \<open>Exception("Batch embedding failed")\<close> is raised in its place. \<open>attempt\<close> is the body of
  the \<open>try\<close>: what it returned, or the message of what it raised when that message comes
  from outside (the exception of the POST, the text of a response that is not \<open>ok\<close>), or
  \<open>Inl None\<close> when it is a \<open>JSONDecodeError\<close>, \<open>KeyError\<close> or \<open>TypeError\<close> of
  \<open>response.json()\<close>, \<open>data['data']\<close> or \<open>item['embedding']\<close>, whose messages are fixed
  text and numbers and are always written. The length of the returned list is not
  compared with the length of \<open>texts\<close>.
\<close>

definition generate_batch_embeddings ::
  "collaborators \<Rightarrow> pystr list \<Rightarrow> world \<Rightarrow> (exn + EmbeddingResult list) \<times> world" where
  "generate_batch_embeddings E texts w =
     (if texts = [] then (Inr [], w)
      else
        (let w' = w\<lparr>jina_requests := jina_requests w @ [texts]\<rparr>;
             attempt =
               (case requests_post E w texts of
                  Inl e \<Rightarrow> Inl (Some (message e))
                | Inr response \<Rightarrow>
                    if \<not> ok response
                    then Inl (Some (str ''Jina API error: '' @ str_int (status_code response)
                                    @ str '' - '' @ response_text response))
                    else (case json_data response of
                            None \<Rightarrow> Inl None
                          | Some items \<Rightarrow>
                              (case embedding_results items of
                                 None \<Rightarrow> Inl None
                               | Some results \<Rightarrow> Inr results)))
         in case attempt of
              Inl None \<Rightarrow> (Inl (Exception (str ''Batch embedding failed'')), w')
            | Inl (Some m) \<Rightarrow>
                (Inl (print_then_raise ([10060] @ str '' [Embedder] Batch failed: '' @ m)
                        (Exception (str ''Batch embedding failed''))), w')
            | Inr results \<Rightarrow> (Inr results, w')))"


section \<open>services/vector\_store.py\<close>

text \<open>
  \<open>store_batch_vectors\<close>. A row has the fields of its \<open>VectorChunk\<close>. One bulk insert is
  issued. When it raises, the \<open>except\<close> clause prints the exception and raises
  \<open>Exception("Failed to store vectors")\<close>. A truthy \<open>error\<close> ends in the same exception
  whether or not its text can be written: the print and the \<open>raise\<close> that follow the test
  are inside the \<open>try\<close>, so the \<open>except\<close> clause catches either the \<open>UnicodeEncodeError\<close>
  or the \<open>Exception\<close>, prints its message (fixed text and numbers) and raises
  \<open>Exception("Failed to store vectors")\<close>.
\<close>

definition store_batch_vectors ::
  "collaborators \<Rightarrow> VectorChunk list \<Rightarrow> world \<Rightarrow> (exn + unit) \<times> world" where
  "store_batch_vectors E chunks w =
     (if chunks = [] then (Inr (), w)
      else
        (let rows = chunks;
             w' = w\<lparr>insert_requests := insert_requests w @ [rows]\<rparr>
         in case table_insert E w rows of
              Inl e \<Rightarrow>
                (Inl (print_then_raise
                        ([10060] @ str '' [VectorStore] Batch insert failed: '' @ message e)
                        (Exception (str ''Failed to store vectors''))), w')
            | Inr response \<Rightarrow>
                if response_error response \<noteq> None \<and> response_error response \<noteq> Some []
                then (Inl (Exception (str ''Failed to store vectors'')), w')
                else (Inr (), w'\<lparr>document_chunks := document_chunks w' @ rows\<rparr>)))"


section \<open>services/pdf\_extractor.py: chunking and batching\<close>

text \<open>
  The callback \<open>on_batch_ready\<close>: it is given the batch and the state, and raises or
  returns, leaving a new state either way.
\<close>

type_synonym 'w handler = "PageChunk list \<Rightarrow> 'w \<Rightarrow> (exn + unit) \<times> 'w"

text \<open>The loop over \<open>reader.pages\<close> that builds \<open>full_text\<close>; \<open>extract_text()\<close> may raise.\<close>

fun extract_pages :: "(exn + pystr) list \<Rightarrow> pystr \<Rightarrow> exn + pystr" where
  "extract_pages [] full_text = Inr full_text"
| "extract_pages (Inl e # pages) full_text = Inl e"
| "extract_pages (Inr page_text # pages) full_text =
     extract_pages pages (full_text @ page_text @ [10])"

text \<open>
  The \<open>while i < len(words)\<close> loop, with its variables \<open>i\<close>, \<open>chunk_index\<close> and \<open>chunks\<close>
  as arguments. It returns the chunks still buffered when the cursor has passed the
  last word, or the exception of the callback. With \<open>chunk_size - overlap \<le> 0\<close> the
  cursor never passes the last word and the loop does not return: the result is \<open>None\<close>.
\<close>

partial_function (option) chunk_loop ::
  "'w handler \<Rightarrow> pystr list \<Rightarrow> int \<Rightarrow> int \<Rightarrow> int \<Rightarrow> int \<Rightarrow> PageChunk list \<Rightarrow> 'w
     \<Rightarrow> ((exn + PageChunk list) \<times> 'w) option" where
  "chunk_loop on_batch_ready words chunk_size overlap i chunk_idx chunks w =
     (if i < int (length words) then
        (let chunks' = chunks @ [\<lparr>PageChunk.page_number = 0, chunk_index = chunk_idx,
                                   content = join [32] (py_slice words i (i + chunk_size))\<rparr>];
             chunk_idx' = chunk_idx + 1
         in if length chunks' \<ge> 5 then
              (case on_batch_ready chunks' w of
                 (Inl e, w') \<Rightarrow> Some (Inl e, w')
               | (Inr u, w') \<Rightarrow>
                   chunk_loop on_batch_ready words chunk_size overlap
                     (i + (chunk_size - overlap)) chunk_idx' [] w')
            else chunk_loop on_batch_ready words chunk_size overlap
                   (i + (chunk_size - overlap)) chunk_idx' chunks' w)
      else Some (Inr chunks, w))"

text \<open>
  \<open>extract_and_process_pdf\<close>: read the pages, clean and split the text, run the loop,
  hand over the chunks left in the buffer, return \<open>{'pageCount': total_pages}\<close>.
  \<open>attempt\<close> is the body of the \<open>try\<close>; the \<open>except\<close> clause prints what it catches and
  re-raises it. (The literal of that line starts with the code points U+201A, U+00F9,
  U+00E5 in the source.)
\<close>

definition extract_and_process_pdf ::
  "collaborators \<Rightarrow> bytes \<Rightarrow> 'w handler \<Rightarrow> int_dict \<Rightarrow> 'w \<Rightarrow> ((exn + int_dict) \<times> 'w) option" where
  "extract_and_process_pdf E buffer on_batch_ready options w =
     (let attempt =
        (case pdf_reader E buffer of
           Inl e \<Rightarrow> Some (Inl e, w)
         | Inr pages \<Rightarrow>
             (case extract_pages pages [] of
                Inl e \<Rightarrow> Some (Inl e, w)
              | Inr full_text \<Rightarrow>
                  (let total_pages = int (length pages);
                       words = split (clean_text full_text)
                   in case getitem options (str ''chunkSize'') of
                        Inl e \<Rightarrow> Some (Inl e, w)
                      | Inr chunk_size \<Rightarrow>
                          (case getitem options (str ''overlap'') of
                             Inl e \<Rightarrow> Some (Inl e, w)
                           | Inr overlap \<Rightarrow>
                               (case chunk_loop on_batch_ready words chunk_size overlap 0 0 [] w of
                                  None \<Rightarrow> None
                                | Some (Inl e, w') \<Rightarrow> Some (Inl e, w')
                                | Some (Inr chunks, w') \<Rightarrow>
                                    if chunks \<noteq> [] then
                                      (case on_batch_ready chunks w' of
                                         (Inl e, w'') \<Rightarrow> Some (Inl e, w'')
                                       | (Inr u, w'') \<Rightarrow>
                                           Some (Inr [str ''pageCount'' \<mapsto> total_pages], w''))
                                    else Some (Inr [str ''pageCount'' \<mapsto> total_pages], w'))))))
      in case attempt of
           None \<Rightarrow> None
         | Some (Inl e, w') \<Rightarrow>
             Some (Inl (print_then_raise
                          ([8218, 249, 229] @ str '' [PDF Extractor] Error: '' @ message e) e),
                   w')
         | Some (Inr result, w') \<Rightarrow> Some (Inr result, w'))"


section \<open>pipeline/rag\_pipeline.py\<close>

text \<open>
  The comprehension that builds \<open>vector_chunks\<close>: \<open>embeddings[idx]\<close> raises \<open>IndexError\<close>
  when \<open>embeddings\<close> has no entry \<open>idx\<close>.
\<close>

fun build_vector_chunks ::
  "pystr \<Rightarrow> pystr \<Rightarrow> pystr \<Rightarrow> EmbeddingResult list \<Rightarrow> (nat \<times> PageChunk) list
     \<Rightarrow> exn + VectorChunk list" where
  "build_vector_chunks doc usr chat embeddings [] = Inr []"
| "build_vector_chunks doc usr chat embeddings ((idx, chunk) # rest) =
     (if idx < length embeddings then
        (case build_vector_chunks doc usr chat embeddings rest of
           Inl e \<Rightarrow> Inl e
         | Inr vs \<Rightarrow>
             Inr (\<lparr>document_id = doc, user_id = usr, chat_id = chat,
                   page_number = PageChunk.page_number chunk,
                   chunk_index = PageChunk.chunk_index chunk,
                   content = PageChunk.content chunk,
                   embedding = EmbeddingResult.embedding (embeddings ! idx)\<rparr> # vs))
      else Inl (Exception (str ''list index out of range'')))"

text \<open>
  \<open>handle_batch_processing\<close>: embed, map, store. \<open>attempt\<close> is the body of the \<open>try\<close>; the
  \<open>except\<close> clause prints what it catches and re-raises it.
\<close>

definition handle_batch_processing ::
  "collaborators \<Rightarrow> PageChunk list \<Rightarrow> pystr \<Rightarrow> pystr \<Rightarrow> pystr \<Rightarrow> world
     \<Rightarrow> (exn + unit) \<times> world" where
  "handle_batch_processing E chunks doc usr chat w =
     (let texts = map PageChunk.content chunks;
          attempt =
            (case generate_batch_embeddings E texts w of
               (Inl e, w') \<Rightarrow> (Inl e, w')
             | (Inr embeddings, w') \<Rightarrow>
                 (case build_vector_chunks doc usr chat embeddings (enumerate 0 chunks) of
                    Inl e \<Rightarrow> (Inl e, w')
                  | Inr vector_chunks \<Rightarrow> store_batch_vectors E vector_chunks w'))
      in case attempt of
           (Inl e, w') \<Rightarrow>
             (Inl (print_then_raise ([32, 32, 10060] @ str '' [Batch Error]: '' @ message e) e),
              w')
         | (Inr u, w') \<Rightarrow> (Inr (), w'))"

text \<open>
  The closure \<open>handle_batch\<close> of \<open>process_document_rag\<close>; its \<open>nonlocal\<close> counter
  \<open>total_chunks_processed\<close> is the first component of the state. The counter moves
  only when \<open>handle_batch_processing\<close> has returned.
\<close>

definition handle_batch ::
  "collaborators \<Rightarrow> pystr \<Rightarrow> pystr \<Rightarrow> pystr \<Rightarrow> (int \<times> world) handler" where
  "handle_batch E doc usr chat chunks s =
     (case handle_batch_processing E chunks doc usr chat (snd s) of
        (Inl e, w') \<Rightarrow> (Inl e, (fst s, w'))
      | (Inr u, w') \<Rightarrow> (Inr (), (fst s + int (length chunks), w')))"

text \<open>
  \<open>process_document_rag\<close>. The call either returns a \<open>PipelineResult\<close> (\<open>Inr\<close>) or is left
  by an exception (\<open>Inl\<close>). The line that announces the document is printed before the
  \<open>try\<close> is entered. \<open>attempt\<close> is the body of the \<open>try\<close>; the \<open>except\<close> clause prints the
  exception and then returns the failed result.
\<close>

definition process_document_rag ::
  "collaborators \<Rightarrow> pystr \<Rightarrow> pystr \<Rightarrow> pystr \<Rightarrow> pystr \<Rightarrow> world
     \<Rightarrow> ((exn + PipelineResult) \<times> world) option" where
  "process_document_rag E doc usr chat storage_path w =
     (case py_print ([128640] @ str '' [RAG Pipeline] Starting: '' @ doc) of
        Some e \<Rightarrow> Some (Inl e, w)
      | None \<Rightarrow>
          (let attempt =
                 (case storage_download E storage_path of
                    Inl e \<Rightarrow> Some (Inl e, w)
                  | Inr response \<Rightarrow>
                      if response = None \<or> response = Some []
                      then Some (Inl (Exception (str ''Download failed: No data returned'')), w)
                      else
                        (case extract_and_process_pdf E (the response)
                                (handle_batch E doc usr chat)
                                [str ''chunkSize'' \<mapsto> 250, str ''overlap'' \<mapsto> 30] (0, w) of
                           None \<Rightarrow> None
                         | Some (Inl e, s) \<Rightarrow> Some (Inl e, snd s)
                         | Some (Inr result, s) \<Rightarrow>
                             (case getitem result (str ''pageCount'') of
                                Inl e \<Rightarrow> Some (Inl e, snd s)
                              | Inr pages \<Rightarrow>
                                  Some (Inr \<lparr>success = True, page_count = pages,
                                             total_chunks = fst s, error = None\<rparr>, snd s))))
           in case attempt of
                None \<Rightarrow> None
              | Some (Inl e, w') \<Rightarrow>
                  (case py_print ([10060] @ str '' [RAG Pipeline] Fatal Error: '' @ message e) of
                     Some e' \<Rightarrow> Some (Inl e', w')
                   | None \<Rightarrow>
                       Some (Inr \<lparr>success = False, page_count = 0, total_chunks = 0,
                                  error = Some (message e)\<rparr>, w'))
              | Some (Inr result, w') \<Rightarrow> Some (Inr result, w')))"


section \<open>Notions used to state the properties\<close>

text \<open>
  A callback for observing the loop: it records a copy of each batch it is given and
  returns. (The loop clears the list it has handed over, so a callback that wants to keep
  a batch has to copy it.)
\<close>

definition record_batch :: "PageChunk list list handler" where
  "record_batch chunks seen = (Inr (), seen @ [chunks])"

text \<open>
  Handing a list of batches to a callback one after the other, stopping at the first
  one on which the callback raises.
\<close>

fun run_batches :: "'w handler \<Rightarrow> PageChunk list list \<Rightarrow> 'w \<Rightarrow> (exn + unit) \<times> 'w" where
  "run_batches h [] w = (Inr (), w)"
| "run_batches h (b # bs) w =
     (case h b w of
        (Inl e, w') \<Rightarrow> (Inl e, w')
      | (Inr u, w') \<Rightarrow> run_batches h bs w')"

text \<open>
  The tokens of a chunk, the dictionaries passed to and returned by
  \<open>extract_and_process_pdf\<close>, and the result \<open>process_document_rag\<close> builds from an
  exception.
\<close>

definition tokens :: "PageChunk \<Rightarrow> pystr list" where
  "tokens c = split (PageChunk.content c)"

abbreviation chunking_options :: "int \<Rightarrow> int \<Rightarrow> int_dict" where
  "chunking_options N K \<equiv> [str ''chunkSize'' \<mapsto> N, str ''overlap'' \<mapsto> K]"

abbreviation page_count_result :: "'a list \<Rightarrow> int_dict" where
  "page_count_result pages \<equiv> [str ''pageCount'' \<mapsto> int (length pages)]"

abbreviation failed_result :: "exn \<Rightarrow> PipelineResult" where
  "failed_result e \<equiv> \<lparr>success = False, page_count = 0, total_chunks = 0,
                       error = Some (message e)\<rparr>"

text \<open>
  What leaves \<open>extract_and_process_pdf\<close> when \<open>e\<close> is raised inside its \<open>try\<close>: \<open>e\<close>
  itself, unless the line that reports it cannot be written.
\<close>

abbreviation reraised_by_extractor :: "exn \<Rightarrow> exn" where
  "reraised_by_extractor e \<equiv>
     print_then_raise ([8218, 249, 229] @ str '' [PDF Extractor] Error: '' @ message e) e"

section \<open>Auxiliary definitions\<close>

text \<open>
  The loop of \<open>extract_and_process_pdf\<close> does two things at once. \<open>windows_from\<close> is
  the list of chunks it builds in \<open>n\<close> iterations from cursor \<open>i\<close>, \<open>remaining\<close> the
  number of iterations left at cursor \<open>i\<close>, and \<open>feed\<close> what happens to a list of chunks
  that is pushed through the buffer of five. \<open>full_batches\<close> and \<open>leftover\<close> are the
  batches handed over while feeding and the chunks left in the buffer; \<open>batches\<close> adds
  the final hand-over.
\<close>

definition remaining :: "nat \<Rightarrow> int \<Rightarrow> int \<Rightarrow> nat" where
  "remaining m step i = nat ((int m - i + step - 1) div step)"

fun windows_from :: "pystr list \<Rightarrow> int \<Rightarrow> int \<Rightarrow> int \<Rightarrow> int \<Rightarrow> nat \<Rightarrow> PageChunk list" where
  "windows_from words chunk_size step i idx 0 = []"
| "windows_from words chunk_size step i idx (Suc n) =
     \<lparr>PageChunk.page_number = 0, chunk_index = idx,
      content = join [32] (py_slice words i (i + chunk_size))\<rparr>
       # windows_from words chunk_size step (i + step) (idx + 1) n"

fun feed :: "'w handler \<Rightarrow> PageChunk list \<Rightarrow> PageChunk list \<Rightarrow> 'w
               \<Rightarrow> (exn + PageChunk list) \<times> 'w" where
  "feed h [] buf w = (Inr buf, w)"
| "feed h (c # cs) buf w =
     (if length (buf @ [c]) \<ge> 5 then
        (case h (buf @ [c]) w of
           (Inl e, w') \<Rightarrow> (Inl e, w')
         | (Inr u, w') \<Rightarrow> feed h cs [] w')
      else feed h cs (buf @ [c]) w)"

fun full_batches :: "PageChunk list \<Rightarrow> PageChunk list \<Rightarrow> PageChunk list list" where
  "full_batches [] buf = []"
| "full_batches (c # cs) buf =
     (if length (buf @ [c]) \<ge> 5 then (buf @ [c]) # full_batches cs []
      else full_batches cs (buf @ [c]))"

fun leftover :: "PageChunk list \<Rightarrow> PageChunk list \<Rightarrow> PageChunk list" where
  "leftover [] buf = buf"
| "leftover (c # cs) buf =
     (if length (buf @ [c]) \<ge> 5 then leftover cs [] else leftover cs (buf @ [c]))"

definition batches :: "PageChunk list \<Rightarrow> PageChunk list list" where
  "batches cs = full_batches cs [] @ (if leftover cs [] = [] then [] else [leftover cs []])"

text \<open>
  A token is a non-empty string without whitespace. \<open>single_spaced\<close> and
  \<open>no_blank_lines\<close> describe the strings the two substitutions of \<open>clean_text\<close> leave
  unchanged.
\<close>

definition is_token :: "pystr \<Rightarrow> bool" where
  "is_token w \<longleftrightarrow> w \<noteq> [] \<and> list_all (\<lambda>c. \<not> isspace c) w"

fun single_spaced :: "pystr \<Rightarrow> bool" where
  "single_spaced [] = True"
| "single_spaced (c # cs) =
     ((if hspace c then c = 32 \<and> (case cs of [] \<Rightarrow> True | d # ds \<Rightarrow> \<not> hspace d) else True)
      \<and> single_spaced cs)"

fun no_blank_lines :: "pystr \<Rightarrow> bool" where
  "no_blank_lines [] = True"
| "no_blank_lines (c # cs) =
     ((if c = 10 then 10 \<notin> set (takeWhile isspace cs) else True) \<and> no_blank_lines cs)"

section \<open>Example inputs\<close>

text \<open>
  Collaborators for concrete runs: a one-page document with the given text, whose
  download, embedding and insert all succeed, and variants in which one of them
  misbehaves.
\<close>

definition empty_world :: world where
  "empty_world = \<lparr>jina_requests = [], insert_requests = [], document_chunks = []\<rparr>"

definition ok_response :: "real list option list \<Rightarrow> http_response" where
  "ok_response items =
     \<lparr>ok = True, status_code = 200, response_text = [], json_data = Some items\<rparr>"

definition chunk :: "int \<Rightarrow> pystr \<Rightarrow> PageChunk" where
  "chunk idx s = \<lparr>PageChunk.page_number = 0, chunk_index = idx, content = s\<rparr>"

definition single_page :: "pystr \<Rightarrow> collaborators" where
  "single_page page_text =
     \<lparr>storage_download = (\<lambda>path. Inr (Some [37])),
      pdf_reader = (\<lambda>buffer. Inr [Inr page_text]),
      requests_post = (\<lambda>w texts.
        Inr \<lparr>ok = True, status_code = 200, response_text = [],
             json_data = Some (map (\<lambda>t. Some []) texts)\<rparr>),
      table_insert = (\<lambda>w rows. Inr \<lparr>response_error = None\<rparr>)\<rparr>"

definition short_api :: collaborators where
  "short_api = (single_page [])
     \<lparr>requests_post := (\<lambda>w texts. Inr (ok_response (map (\<lambda>t. Some [0]) (tl texts))))\<rparr>"

definition surplus_api :: collaborators where
  "surplus_api = (single_page [])
     \<lparr>requests_post := (\<lambda>w texts. Inr (ok_response (Some [0] # map (\<lambda>t. Some [0]) texts)))\<rparr>"

definition unreachable_api :: "pystr \<Rightarrow> collaborators" where
  "unreachable_api page_text = (single_page page_text)
     \<lparr>requests_post := (\<lambda>w texts. Inl (Exception (str ''timeout'')))\<rparr>"

definition empty_file :: collaborators where
  "empty_file = (single_page [])\<lparr>storage_download := (\<lambda>path. Inr (Some []))\<rparr>"

definition missing_file :: collaborators where
  "missing_file = (single_page [])
     \<lparr>storage_download := (\<lambda>path. Inl (Exception (str ''not found'')))\<rparr>"

text \<open>A storage whose exception has the message \<open>U+D800\<close>, a lone surrogate.\<close>

definition garbled_failure :: collaborators where
  "garbled_failure = (single_page [])
     \<lparr>storage_download := (\<lambda>path. Inl (Exception [55296]))\<rparr>"

definition broken_pdf :: collaborators where
  "broken_pdf = (single_page [])
     \<lparr>pdf_reader := (\<lambda>buffer. Inl (Exception (str ''EOF marker not found'')))\<rparr>"

definition broken_page :: collaborators where
  "broken_page = (single_page [])
     \<lparr>pdf_reader := (\<lambda>buffer. Inr [Inr (str ''a''), Inl (Exception (str ''bad stream''))])\<rparr>"

text \<open>
  A document of 1101 words, \<open>a a a ...\<close>: six chunks, delivered as a batch of five and a
  batch of one. The embeddings API answers the first request and times out afterwards.
\<close>

definition long_text :: pystr where
  "long_text = concat (replicate 1101 [97, 32])"

definition flaky_api :: collaborators where
  "flaky_api = (single_page long_text)
     \<lparr>requests_post := (\<lambda>w texts.
        if jina_requests w = [] then Inr (ok_response (map (\<lambda>t. Some [0]) texts))
        else Inl (Exception (str ''timeout'')))\<rparr>"

definition first_batch :: "PageChunk list" where
  "first_batch =
     [chunk 0 (join [32] (replicate 250 [97])), chunk 1 (join [32] (replicate 250 [97])),
      chunk 2 (join [32] (replicate 250 [97])), chunk 3 (join [32] (replicate 250 [97])),
      chunk 4 (join [32] (replicate 221 [97]))]"

definition row_of :: "PageChunk \<Rightarrow> VectorChunk" where
  "row_of c = \<lparr>document_id = str ''doc'', user_id = str ''usr'', chat_id = str ''chat'',
              page_number = PageChunk.page_number c, chunk_index = PageChunk.chunk_index c,
              content = PageChunk.content c, embedding = [0]\<rparr>"

definition stored_world :: world where
  "stored_world = \<lparr>jina_requests = [map PageChunk.content first_batch],
                   insert_requests = [map row_of first_batch],
                   document_chunks = map row_of first_batch\<rparr>"

lemmas run_simps =
  extract_and_process_pdf_def chunk_loop.simps single_page_def getitem_def str_def
  clean_text_def strip_def isspace_def hspace_def after_blank_lines_def
  py_slice_def slice_bound_def record_batch_def Let_def

lemmas pipeline_simps =
  handle_batch_processing_def generate_batch_embeddings_def store_batch_vectors_def
  handle_batch_def process_document_rag_def print_then_raise_def py_print_def
  is_surrogate_def Let_def

section \<open>Log lines\<close>

lemma encodable_Nil [simp]: "encodable []"
  by (simp add: encodable_def)

lemma encodable_Cons [simp]: "encodable (c # s) \<longleftrightarrow> \<not> is_surrogate c \<and> encodable s"
  by (simp add: encodable_def)

lemma encodable_append [simp]: "encodable (a @ b) \<longleftrightarrow> encodable a \<and> encodable b"
  by (simp add: encodable_def)

lemma encodable_str [simp]: "encodable (str s)"
proof -
  have "\<not> is_surrogate (of_char c)" for c :: char
  proof -
    have "of_char c mod (256 :: nat) = of_char c" by (rule of_char_mod_256)
    then have "of_char c < (256 :: nat)" by (metis mod_less_divisor zero_less_numeral)
    then show ?thesis unfolding is_surrogate_def by arith
  qed
  then show ?thesis by (induction s) (simp_all add: str_def)
qed

lemma encodable_decimal [simp]: "encodable (decimal n)"
proof (induction n rule: decimal.induct)
  case (1 n)
  have m: "n mod 10 < 10" by simp
  show ?case
  proof (cases "n < 10")
    case True
    then show ?thesis by (subst decimal.simps) (simp add: is_surrogate_def)
  next
    case False
    then show ?thesis using 1 m by (subst decimal.simps) (simp add: is_surrogate_def)
  qed
qed

lemma encodable_hex4 [simp]: "encodable (hex4 c)"
proof -
  have h: "x < 16 \<Longrightarrow> \<not> is_surrogate (hex_digit x)" for x
    by (simp add: hex_digit_def is_surrogate_def)
  have "\<not> is_surrogate (hex_digit (d mod 16))" for d
    by (rule h) simp
  then show ?thesis by (simp add: hex4_def)
qed

lemma encodable_unicode_encode_error [simp]: "encodable (message (unicode_encode_error s))"
  by (simp add: unicode_encode_error_def Let_def is_surrogate_def)

lemma py_print_written: "encodable line \<Longrightarrow> py_print line = None"
  by (simp add: py_print_def)

lemma print_then_raise_written: "encodable line \<Longrightarrow> print_then_raise line e = e"
  by (simp add: print_then_raise_def py_print_def)

lemma print_then_raise_message [simp]:
  "encodable (message (print_then_raise line e)) \<longleftrightarrow> (encodable line \<longrightarrow> encodable (message e))"
  by (simp add: print_then_raise_def py_print_def)

section \<open>Text cleaning\<close>

lemma isspace_10 [simp]: "isspace 10" by (simp add: isspace_def)

lemma not_hspace_10 [simp]: "\<not> hspace 10" by (simp add: hspace_def)

lemma hspace_32 [simp]: "hspace 32" by (simp add: hspace_def isspace_def)

lemma sub_spaces_not_hspace_hd:
  "(case s of [] \<Rightarrow> True | d # ds \<Rightarrow> \<not> hspace d) \<Longrightarrow>
   (case sub_spaces s of [] \<Rightarrow> True | d # ds \<Rightarrow> \<not> hspace d)"
  by (cases s) auto

lemma dropWhile_hd: "(case dropWhile P s of [] \<Rightarrow> True | d # ds \<Rightarrow> \<not> P d)"
  by (induction s) auto

lemma single_spaced_sub_spaces: "single_spaced (sub_spaces s)"
proof (induction s rule: sub_spaces.induct)
  case 1
  then show ?case by simp
next
  case (2 c cs)
  show ?case
  proof (cases "hspace c")
    case True
    then show ?thesis
      using 2(1) sub_spaces_not_hspace_hd [OF dropWhile_hd [of hspace cs]] by simp
  next
    case False
    then show ?thesis using 2(2) by simp
  qed
qed

lemma sub_spaces_id: "single_spaced s \<Longrightarrow> sub_spaces s = s"
proof (induction s)
  case Nil
  then show ?case by simp
next
  case (Cons c cs)
  then show ?case by (cases cs) (auto split: if_splits)
qed

lemma sub_newlines_id: "no_blank_lines s \<Longrightarrow> sub_newlines s = s"
  by (induction s) (auto split: if_splits)

lemma single_spaced_append_left: "single_spaced (a @ b) \<Longrightarrow> single_spaced a"
proof (induction a)
  case Nil
  then show ?case by simp
next
  case (Cons c cs)
  then show ?case by (cases cs) (auto split: if_splits)
qed

lemma single_spaced_append_right: "single_spaced (a @ b) \<Longrightarrow> single_spaced b"
  by (induction a) (auto split: if_splits)

lemma set_takeWhile_append_left: "set (takeWhile P a) \<subseteq> set (takeWhile P (a @ b))"
  by (induction a) auto

lemma no_blank_lines_append_left: "no_blank_lines (a @ b) \<Longrightarrow> no_blank_lines a"
proof (induction a)
  case Nil
  then show ?case by simp
next
  case (Cons c cs)
  then show ?case using set_takeWhile_append_left [of isspace cs b]
    by (auto split: if_splits)
qed

lemma no_blank_lines_append_right: "no_blank_lines (a @ b) \<Longrightarrow> no_blank_lines b"
  by (induction a) (auto split: if_splits)

lemma strip_decomp: "\<exists>a b. s = a @ strip s @ b"
proof -
  have 1: "s = takeWhile isspace s @ dropWhile isspace s" by simp
  have 2: "dropWhile isspace s =
           rev (dropWhile isspace (rev (dropWhile isspace s)))
           @ rev (takeWhile isspace (rev (dropWhile isspace s)))"
    by (metis rev_append rev_rev_ident takeWhile_dropWhile_id)
  show ?thesis
    unfolding strip_def using 1 2 by metis
qed

lemma single_spaced_strip: "single_spaced s \<Longrightarrow> single_spaced (strip s)"
  using strip_decomp [of s] single_spaced_append_left single_spaced_append_right by metis

lemma no_blank_lines_strip: "no_blank_lines s \<Longrightarrow> no_blank_lines (strip s)"
  using strip_decomp [of s] no_blank_lines_append_left no_blank_lines_append_right by metis

lemma strip_strip: "strip (strip s) = strip s"
proof -
  let ?d = "dropWhile isspace s"
  let ?r = "dropWhile isspace (rev ?d)"
  have a: "dropWhile isspace (rev ?r) = rev ?r"
  proof (cases "rev ?r")
    case Nil
    show ?thesis unfolding Nil by simp
  next
    case (Cons x xs)
    have "?d \<noteq> []"
    proof
      assume e: "?d = []"
      have "rev ?r = []" unfolding e by simp
      then show False using Cons by simp
    qed
    then have hd: "\<not> isspace (hd ?d)" by (metis hd_dropWhile)
    obtain pre where "rev ?d = pre @ ?r"
      by (metis takeWhile_dropWhile_id)
    then have "?d = rev ?r @ rev pre" by (metis rev_append rev_rev_ident)
    then have "hd ?d = x" using Cons by simp
    then show ?thesis using hd Cons by simp
  qed
  have b: "dropWhile isspace ?r = ?r"
    by (metis dropWhile_idem)
  show ?thesis
    unfolding strip_def by (simp only: a rev_rev_ident b)
qed

lemma after_blank_lines_suffix: "\<exists>pre. cs = pre @ after_blank_lines cs"
proof -
  let ?ws = "takeWhile isspace cs"
  have "?ws = rev (dropWhile (\<lambda>c. c \<noteq> 10) (rev ?ws)) @ rev (takeWhile (\<lambda>c. c \<noteq> 10) (rev ?ws))"
    by (metis rev_append rev_rev_ident takeWhile_dropWhile_id)
  moreover have "cs = ?ws @ dropWhile isspace cs" by simp
  ultimately have "cs = rev (dropWhile (\<lambda>c. c \<noteq> 10) (rev ?ws)) @ after_blank_lines cs"
    unfolding after_blank_lines_def by (metis append.assoc)
  then show ?thesis ..
qed

lemma takeWhile_after_blank_lines:
  "takeWhile isspace (after_blank_lines cs) =
     rev (takeWhile (\<lambda>c. c \<noteq> 10) (rev (takeWhile isspace cs)))"
proof -
  let ?a = "rev (takeWhile (\<lambda>c. c \<noteq> 10) (rev (takeWhile isspace cs)))"
  have "set ?a \<subseteq> set (takeWhile isspace cs)"
    using set_takeWhileD by fastforce
  then have all: "\<forall>x\<in>set ?a. isspace x"
    using set_takeWhileD by fastforce
  have "takeWhile isspace (dropWhile isspace cs) = []"
    by (metis dropWhile_eq_Nil_conv hd_dropWhile list.collapse takeWhile.simps(2) takeWhile_eq_Nil_iff)
  moreover have "takeWhile isspace (?a @ dropWhile isspace cs)
                   = ?a @ takeWhile isspace (dropWhile isspace cs)"
    by (rule takeWhile_append2) (use all in blast)
  ultimately show ?thesis
    unfolding after_blank_lines_def by simp
qed

lemma no_newline_after_blank_lines: "10 \<notin> set (takeWhile isspace (after_blank_lines cs))"
  unfolding takeWhile_after_blank_lines using set_takeWhileD by fastforce

lemma takeWhile_sub_newlines:
  "10 \<notin> set (takeWhile isspace s) \<Longrightarrow> takeWhile isspace (sub_newlines s) = takeWhile isspace s"
  by (induction s) (auto split: if_splits)

lemma no_blank_lines_sub_newlines: "no_blank_lines (sub_newlines s)"
proof (induction s rule: sub_newlines.induct)
  case 1
  then show ?case by simp
next
  case (2 c cs)
  show ?case
  proof (cases "c = 10 \<and> 10 \<in> set (takeWhile isspace cs)")
    case True
    have "10 \<notin> set (takeWhile isspace (sub_newlines (after_blank_lines cs)))"
      using takeWhile_sub_newlines [OF no_newline_after_blank_lines]
            no_newline_after_blank_lines by simp
    then show ?thesis using True 2(1) by simp
  next
    case False
    then show ?thesis using 2(2) takeWhile_sub_newlines [of cs] by auto
  qed
qed

lemma sub_newlines_hd:
  "(case s of [] \<Rightarrow> True | d # ds \<Rightarrow> \<not> hspace d) \<Longrightarrow>
   (case sub_newlines s of [] \<Rightarrow> True | d # ds \<Rightarrow> \<not> hspace d)"
  by (cases s) auto

lemma single_spaced_sub_newlines: "single_spaced s \<Longrightarrow> single_spaced (sub_newlines s)"
proof (induction s rule: sub_newlines.induct)
  case 1
  then show ?case by simp
next
  case (2 c cs)
  show ?case
  proof (cases "c = 10 \<and> 10 \<in> set (takeWhile isspace cs)")
    case True
    obtain pre where "cs = pre @ after_blank_lines cs"
      using after_blank_lines_suffix by blast
    then have "single_spaced (after_blank_lines cs)"
      using 2(3) single_spaced_append_right [of pre "after_blank_lines cs"] by simp
    then show ?thesis using True 2(1) by simp
  next
    case False
    have t: "single_spaced cs" using 2(3) by simp
    have h: "hspace c \<Longrightarrow> (case sub_newlines cs of [] \<Rightarrow> True | d # ds \<Rightarrow> \<not> hspace d)"
      using 2(3) sub_newlines_hd [of cs] by simp
    have "sub_newlines (c # cs) = c # sub_newlines cs" using False by auto
    then show ?thesis using 2(2) [OF False t] 2(3) h by simp
  qed
qed

text \<open>
  C7. \<open>clean_text\<close> is idempotent: cleaning a cleaned text changes nothing, for every
  string.
\<close>

theorem clean_text_idempotent: "clean_text (clean_text x) = clean_text x"
proof -
  let ?y = "clean_text x"
  have 1: "single_spaced ?y"
    unfolding clean_text_def
    by (intro single_spaced_strip single_spaced_sub_newlines single_spaced_sub_spaces)
  have 2: "no_blank_lines ?y"
    unfolding clean_text_def
    by (intro no_blank_lines_strip no_blank_lines_sub_newlines)
  have 3: "strip ?y = ?y"
    unfolding clean_text_def by (rule strip_strip)
  show ?thesis
    using sub_spaces_id [OF 1] sub_newlines_id [OF 2] 3
    by (simp add: clean_text_def)
qed

section \<open>The chunking loop\<close>

lemma remaining_done: "0 < step \<Longrightarrow> \<not> i < int m \<Longrightarrow> remaining m step i = 0"
proof -
  assume a: "0 < step" "\<not> i < int m"
  then have lt: "int m - i + step - 1 < step" by simp
  have "(int m - i + step - 1) div step \<le> 0"
  proof (cases "0 \<le> int m - i + step - 1")
    case True
    then show ?thesis using lt by (simp add: div_pos_pos_trivial)
  next
    case False
    then show ?thesis using a(1) by (simp add: div_nonpos_pos_le0)
  qed
  then show ?thesis by (simp add: remaining_def)
qed

lemma remaining_step:
  "0 < step \<Longrightarrow> i < int m \<Longrightarrow> remaining m step i = Suc (remaining m step (i + step))"
proof -
  assume a: "0 < step" "i < int m"
  have "int m - i + step - 1 = (int m - (i + step) + step - 1) + step" by simp
  then have "(int m - i + step - 1) div step = (int m - (i + step) + step - 1) div step + 1"
    using a(1) by (metis div_add_self2 less_irrefl)
  moreover have "0 \<le> (int m - (i + step) + step - 1) div step"
    using a by (simp add: pos_imp_zdiv_nonneg_iff)
  ultimately show ?thesis by (simp add: remaining_def nat_add_distrib)
qed

text \<open>
  With a positive step the loop returns, and what it returns is what feeding the
  windows through the buffer gives.
\<close>

lemma chunk_loop_feed:
  assumes "0 < chunk_size - overlap"
  shows "chunk_loop h words chunk_size overlap i idx chunks w =
         Some (feed h (windows_from words chunk_size (chunk_size - overlap) i idx
                         (remaining (length words) (chunk_size - overlap) i)) chunks w)"
proof (induction "remaining (length words) (chunk_size - overlap) i" arbitrary: i idx chunks w)
  case 0
  then have "\<not> i < int (length words)"
    using remaining_step [OF assms, of i "length words"] by auto
  then show ?case using 0 [symmetric]
    by (subst chunk_loop.simps) simp
next
  case (Suc n)
  then have lt: "i < int (length words)"
    using remaining_done [OF assms, of i "length words"] by auto
  have n: "n = remaining (length words) (chunk_size - overlap) (i + (chunk_size - overlap))"
    using remaining_step [OF assms lt] Suc.hyps(2) by simp
  show ?case
    apply (subst chunk_loop.simps)
    apply (simp only: Suc.hyps(2) [symmetric] windows_from.simps feed.simps lt if_True Let_def)
    apply (simp only: n [symmetric] Suc.hyps(1) [OF n])
    apply (simp split: prod.splits sum.splits)
    done
qed

text \<open>
  C8. Under \<open>0 \<le> overlap < chunk_size\<close> the loop returns, from every state and for
  every list of words and every callback: the number of iterations left is finite and
  falls by one with every pass, since the cursor moves by \<open>chunk_size - overlap > 0\<close>.
\<close>

theorem chunk_loop_terminates:
  assumes "0 \<le> overlap" and "overlap < chunk_size"
  shows "\<exists>r. chunk_loop on_batch_ready words chunk_size overlap i chunk_idx chunks w = Some r"
proof -
  have "0 < chunk_size - overlap" using assms(2) by simp
  then show ?thesis by (simp add: chunk_loop_feed)
qed

theorem chunk_loop_terminates_witness:
  "(0::int) \<le> 1 \<and> (1::int) < 2
   \<and> (\<exists>r. chunk_loop record_batch [str ''a'', str ''b'', str ''c''] 2 1 0 0 [] [] = Some r)
   \<and> chunk_loop record_batch [str ''a'', str ''b'', str ''c''] 2 1 0 0 [] []
       = Some (Inr [chunk 0 (str ''a b''), chunk 1 (str ''b c''), chunk 2 (str ''c'')], [])"
proof -
  have 1: "(0::int) \<le> 1" and 2: "(1::int) < 2" by simp_all
  have 3: "chunk_loop record_batch [str ''a'', str ''b'', str ''c''] 2 1 0 0 [] []
       = Some (Inr [chunk 0 (str ''a b''), chunk 1 (str ''b c''), chunk 2 (str ''c'')], [])"
    by (simp add: run_simps chunk_def)
  show ?thesis
    by (intro conjI) (rule 1 2 3 chunk_loop_terminates [OF 1 2])+
qed

text \<open>
  The precondition is needed. When the step \<open>chunk_size - overlap\<close> is not positive and
  the cursor is inside the list of words, the loop never returns to a callback that
  never raises.
\<close>

lemma chunk_loop_stuck:
  assumes "chunk_loop h words chunk_size overlap i idx chunks seen = Some y"
  shows "\<not> (h = record_batch \<and> chunk_size \<le> overlap \<and> i < int (length words))"
proof (rule chunk_loop.raw_induct
         [where P = "\<lambda>h words chunk_size overlap i idx chunks seen y.
                       \<not> (h = record_batch \<and> chunk_size \<le> overlap \<and> i < int (length words))",
          OF _ assms])
  fix loop h words chunk_size overlap i idx chunks seen y
  assume ih: "\<And>h words chunk_size overlap i idx chunks seen y.
                loop h words chunk_size overlap i idx chunks seen = Some y \<Longrightarrow>
                \<not> (h = record_batch \<and> chunk_size \<le> overlap \<and> i < int (length words))"
    and body: "(if i < int (length words)
      then let chunks' =
                 chunks @
                 [\<lparr>PageChunk.page_number = 0, chunk_index = idx,
                     content = join [32] (py_slice words i (i + chunk_size))\<rparr>];
               chunk_idx' = idx + 1
           in if 5 \<le> length chunks'
              then case h chunks' seen of
                   (Inl e, w') \<Rightarrow> Some (Inl e, w')
                   | (Inr u, w') \<Rightarrow>
                       loop h words chunk_size overlap
                        (i + (chunk_size - overlap)) chunk_idx' [] w'
              else loop h words chunk_size overlap
                    (i + (chunk_size - overlap)) chunk_idx' chunks' seen
      else Some (Inr chunks, seen)) = Some y"
  show "\<not> (h = record_batch \<and> chunk_size \<le> overlap \<and> i < int (length words))"
  proof
    assume a: "h = record_batch \<and> chunk_size \<le> overlap \<and> i < int (length words)"
    then have lt: "i + (chunk_size - overlap) < int (length words)" by simp
    from body a obtain idx' chunks' seen' where
      "loop record_batch words chunk_size overlap (i + (chunk_size - overlap)) idx' chunks' seen'
         = Some y"
      by (auto simp: Let_def record_batch_def split: if_splits)
    from ih [OF this] a lt show False by simp
  qed
qed

lemma chunk_loop_diverges:
  "chunk_size \<le> overlap \<Longrightarrow> i < int (length words) \<Longrightarrow>
   chunk_loop record_batch words chunk_size overlap i idx chunks seen = None"
  using chunk_loop_stuck [of record_batch words chunk_size overlap i idx chunks seen]
  by (cases "chunk_loop record_batch words chunk_size overlap i idx chunks seen") auto

lemma feed_run_batches:
  "feed h cs buf w =
     (case run_batches h (full_batches cs buf) w of
        (Inl e, w') \<Rightarrow> (Inl e, w')
      | (Inr u, w') \<Rightarrow> (Inr (leftover cs buf), w'))"
  by (induction cs arbitrary: buf w) (auto split: prod.splits sum.splits)

lemma run_batches_append:
  "run_batches h (as @ bs) w =
     (case run_batches h as w of
        (Inl e, w') \<Rightarrow> (Inl e, w')
      | (Inr u, w') \<Rightarrow> run_batches h bs w')"
  by (induction as arbitrary: w) (auto split: prod.splits sum.splits)

lemma run_batches_record: "run_batches record_batch bs seen = (Inr (), seen @ bs)"
  by (induction bs arbitrary: seen) (auto simp: record_batch_def)

lemma concat_full_batches: "concat (full_batches cs buf) @ leftover cs buf = buf @ cs"
  by (induction cs arbitrary: buf) auto

lemma length_leftover: "length buf < 5 \<Longrightarrow> length (leftover cs buf) < 5"
  by (induction cs arbitrary: buf) auto

lemma length_full_batches:
  "length buf < 5 \<Longrightarrow> \<forall>b\<in>set (full_batches cs buf). length b = 5"
proof (induction cs arbitrary: buf)
  case Nil
  then show ?case by simp
next
  case (Cons c cs)
  show ?case
  proof (cases "5 \<le> length (buf @ [c])")
    case True
    then have "length (buf @ [c]) = 5" using Cons.prems by simp
    then show ?thesis using True Cons.IH [of "[]"] by simp
  next
    case False
    then show ?thesis using Cons.IH [of "buf @ [c]"] by simp
  qed
qed

lemma concat_batches: "concat (batches cs) = cs"
  using concat_full_batches [of cs "[]"] by (auto simp: batches_def)

lemma length_windows_from [simp]: "length (windows_from words cs step i idx n) = n"
  by (induction n arbitrary: i idx) auto

lemma nth_windows_from:
  "j < n \<Longrightarrow> windows_from words cs step i idx n ! j =
     \<lparr>PageChunk.page_number = 0, chunk_index = idx + int j,
      content = join [32] (py_slice words (i + int j * step) (i + int j * step + cs))\<rparr>"
proof (induction n arbitrary: i idx j)
  case 0
  then show ?case by simp
next
  case (Suc n)
  show ?case
  proof (cases j)
    case 0
    then show ?thesis by simp
  next
    case (Suc k)
    with Suc.prems have "k < n" by simp
    from Suc.IH [OF this, of "i + step" "idx + 1"] Suc show ?thesis
      by (simp add: algebra_simps)
  qed
qed

lemma extract_and_process_pdf_batches:
  assumes "pdf_reader E buffer = Inr pages"
    and "extract_pages pages [] = Inr full_text"
    and "0 < N - K"
  shows "extract_and_process_pdf E buffer h [str ''chunkSize'' \<mapsto> N, str ''overlap'' \<mapsto> K] w =
         Some (case run_batches h
                      (batches (windows_from (split (clean_text full_text)) N (N - K) 0 0
                         (remaining (length (split (clean_text full_text))) (N - K) 0))) w of
                 (Inl e, w') \<Rightarrow> (Inl (reraised_by_extractor e), w')
               | (Inr u, w') \<Rightarrow> (Inr [str ''pageCount'' \<mapsto> int (length pages)], w'))"
proof -
  have ne: "str ''overlap'' \<noteq> str ''chunkSize''"
    by (simp add: str_def)
  have g1: "getitem [str ''chunkSize'' \<mapsto> N, str ''overlap'' \<mapsto> K] (str ''chunkSize'') = Inr N"
    using ne by (simp add: getitem_def)
  have g2: "getitem [str ''chunkSize'' \<mapsto> N, str ''overlap'' \<mapsto> K] (str ''overlap'') = Inr K"
    by (simp add: getitem_def)
  show ?thesis
    unfolding extract_and_process_pdf_def
    apply (simp only: assms(1) assms(2) sum.case Let_def g1 g2 chunk_loop_feed [OF assms(3)]
                      option.case feed_run_batches batches_def run_batches_append)
    apply (auto split: prod.splits sum.splits)
    done
qed

lemma ceil_div:
  assumes "0 < (b::int)"
  shows "(a + b - 1) div b = - (- a div b)"
proof (cases "a mod b = 0")
  case True
  then have "a = b * (a div b)" by (simp add: mod_eq_0_iff_dvd)
  then have "a + b - 1 = (b - 1) + b * (a div b)" by simp
  then have "(a + b - 1) div b = a div b + (b - 1) div b"
    using assms by (metis div_mult_self2 less_irrefl)
  moreover have "(b - 1) div b = 0" using assms by (simp add: div_pos_pos_trivial)
  ultimately show ?thesis using True assms by (simp add: zdiv_zminus1_eq_if)
next
  case False
  have r: "0 \<le> a mod b" "a mod b < b" using assms by simp_all
  have "a = b * (a div b) + a mod b" by simp
  then have "a + b - 1 = (a mod b - 1) + b * (a div b + 1)"
    by (simp add: algebra_simps)
  then have "(a + b - 1) div b = (a div b + 1) + (a mod b - 1) div b"
    using assms by (metis div_mult_self2 less_irrefl)
  moreover have "(a mod b - 1) div b = 0"
    using r False by (simp add: div_pos_pos_trivial)
  ultimately show ?thesis using False assms by (simp add: zdiv_zminus1_eq_if)
qed

lemma remaining_ceiling:
  assumes "0 < s"
  shows "int (remaining m s 0) = \<lceil>real m / real_of_int s\<rceil>"
proof -
  have "\<lceil>real m / real_of_int s\<rceil> = \<lceil>real_of_int (int m) / real_of_int s\<rceil>" by simp
  also have "\<dots> = - (- int m div s)" by (rule ceiling_divide_eq_div)
  finally have c: "\<lceil>real m / real_of_int s\<rceil> = (int m + s - 1) div s"
    using ceil_div [OF assms, of "int m"] by simp
  have "0 \<le> (int m + s - 1) div s"
    using assms by (simp add: pos_imp_zdiv_nonneg_iff)
  then show ?thesis by (simp add: remaining_def c)
qed

lemma delivered_to_record_batch:
  assumes "pdf_reader E buffer = Inr pages"
    and "extract_pages pages [] = Inr full_text"
    and "0 < N - K"
  shows "extract_and_process_pdf E buffer record_batch (chunking_options N K) [] =
         Some (Inr (page_count_result pages),
               batches (windows_from (split (clean_text full_text)) N (N - K) 0 0
                         (remaining (length (split (clean_text full_text))) (N - K) 0)))"
  by (simp add: extract_and_process_pdf_batches [OF assms] run_batches_record)

lemma chunk_index_windows_from:
  "map PageChunk.chunk_index (windows_from words cs step i 0 n) = map int [0..<n]"
  by (rule nth_equalityI) (simp_all add: nth_windows_from)

text \<open>
  C1, as amended. For \<open>0 \<le> K < N\<close> and a text that cleans and splits into \<open>M\<close> words,
  the chunks handed to the callback number \<open>ceil(M / (N - K))\<close> (none when \<open>M = 0\<close>),
  and their \<open>chunk_index\<close> values are \<open>0, 1, ..., count - 1\<close> in the order of delivery.
\<close>

theorem chunk_count_and_indices:
  assumes "pdf_reader E buffer = Inr pages"
    and "extract_pages pages [] = Inr full_text"
    and "0 \<le> K" and "K < N"
  shows "\<exists>delivered.
           extract_and_process_pdf E buffer record_batch (chunking_options N K) []
             = Some (Inr (page_count_result pages), delivered)
         \<and> int (length (concat delivered))
             = \<lceil>real (length (split (clean_text full_text))) / real_of_int (N - K)\<rceil>
         \<and> map PageChunk.chunk_index (concat delivered)
             = map int [0..<length (concat delivered)]"
proof -
  have s: "0 < N - K" using assms(4) by simp
  show ?thesis
    using delivered_to_record_batch [OF assms(1,2) s] remaining_ceiling [OF s]
    by (simp add: concat_batches chunk_index_windows_from)
qed

theorem chunk_count_and_indices_witness:
  "pdf_reader (single_page (str ''a b c'')) [] = Inr [Inr (str ''a b c'')]
   \<and> extract_pages [Inr (str ''a b c'')] [] = Inr (str ''a b c'' @ [10])
   \<and> (0::int) \<le> 1 \<and> (1::int) < 2
   \<and> (\<exists>delivered.
           extract_and_process_pdf (single_page (str ''a b c'')) [] record_batch
               (chunking_options 2 1) []
             = Some (Inr (page_count_result [Inr (str ''a b c'')]), delivered)
         \<and> int (length (concat delivered))
             = \<lceil>real (length (split (clean_text (str ''a b c'' @ [10])))) / real_of_int (2 - 1)\<rceil>
         \<and> map PageChunk.chunk_index (concat delivered)
             = map int [0..<length (concat delivered)])"
proof -
  have 1: "pdf_reader (single_page (str ''a b c'')) [] = Inr [Inr (str ''a b c'')]"
    by (simp add: single_page_def)
  have 2: "extract_pages [Inr (str ''a b c'')] [] = Inr (str ''a b c'' @ [10])"
    by simp
  show ?thesis
    using 1 2 chunk_count_and_indices [OF 1 2, of 1 2] by simp
qed

text \<open>
  C1 as stated fails: it gives the count as \<open>ceil(max(M - K, 0) / (N - K))\<close>. A text of
  three words with \<open>N = 250\<close> and \<open>K = 30\<close> yields one chunk, and the formula yields 0.
\<close>

theorem chunk_count_counterexample:
  "extract_and_process_pdf (single_page (str ''a b c'')) [] record_batch
       (chunking_options 250 30) []
     = Some (Inr (page_count_result [Inr (str ''a b c'') :: exn + pystr]),
             [[chunk 0 (str ''a b c'')]])
   \<and> length (split (clean_text (str ''a b c'' @ [10]))) = 3
   \<and> int (length (concat [[chunk 0 (str ''a b c'')]]))
       \<noteq> \<lceil>real_of_int (max (3 - 30) 0) / real_of_int (250 - 30)\<rceil>"
  by (simp add: run_simps chunk_def)

lemma fives:
  "\<forall>b\<in>set F. length b = 5 \<Longrightarrow>
   map length F = replicate (length F) 5 \<and> length (concat F) = 5 * length F"
  by (induction F) auto

lemma batches_sizes:
  "map length (batches cs) =
     replicate (length cs div 5) 5 @ (if length cs mod 5 = 0 then [] else [length cs mod 5])"
proof -
  let ?F = "full_batches cs []" and ?L = "leftover cs []"
  have f: "map length ?F = replicate (length ?F) 5" "length (concat ?F) = 5 * length ?F"
    using fives [OF length_full_batches [of "[]" cs]] by simp_all
  have l: "length ?L < 5" using length_leftover [of "[]" cs] by simp
  have "length (concat ?F @ ?L) = length cs"
    using concat_full_batches [of cs "[]"] by simp
  then have n: "length cs = 5 * length ?F + length ?L" using f(2) by simp
  have d: "length cs div 5 = length ?F" and m: "length cs mod 5 = length ?L"
    using n l by auto
  show ?thesis
    unfolding batches_def d m using f(1) by simp
qed

lemma batches_bounds: "\<forall>b\<in>set (batches cs). 0 < length b \<and> length b \<le> 5"
  using length_full_batches [of "[]" cs] length_leftover [of "[]" cs]
  by (auto simp: batches_def)

lemma length_batches: "int (length (batches cs)) = \<lceil>real (length cs) / 5\<rceil>"
proof -
  have "length (batches cs) = length (map length (batches cs))" by simp
  also have "\<dots> = length cs div 5 + (if length cs mod 5 = 0 then 0 else 1)"
    unfolding batches_sizes by simp
  finally have a: "int (length (batches cs)) = (int (length cs) + 5 - 1) div 5"
    by (auto simp: zdiv_int) presburger+
  have "\<lceil>real (length cs) / 5\<rceil> = \<lceil>real_of_int (int (length cs)) / real_of_int 5\<rceil>" by simp
  also have "\<dots> = - (- int (length cs) div 5)" by (rule ceiling_divide_eq_div)
  finally show ?thesis using a ceil_div [of 5 "int (length cs)"] by simp
qed

text \<open>
  C3. For \<open>0 \<le> K < N\<close> and a text of \<open>M\<close> words, the loop builds \<open>ceil(M / (N - K))\<close>
  chunks, numbered from 0, and the batches handed to the callback hold exactly these
  chunks, in this order. No batch is larger than five and none is empty; for \<open>total\<close>
  chunks there are \<open>ceil(total / 5)\<close> batches; all have five chunks except possibly the
  last, which has \<open>total mod 5\<close> when that is not zero. Any callback is given these same
  batches, in this order, up to the first one on which it raises.
\<close>

theorem batch_sizes:
  assumes "pdf_reader E buffer = Inr pages"
    and "extract_pages pages [] = Inr full_text"
    and "0 \<le> K" and "K < N"
  shows "\<exists>delivered.
           extract_and_process_pdf E buffer record_batch (chunking_options N K) []
             = Some (Inr (page_count_result pages), delivered)
         \<and> int (length (concat delivered))
             = \<lceil>real (length (split (clean_text full_text))) / real_of_int (N - K)\<rceil>
         \<and> map PageChunk.chunk_index (concat delivered)
             = map int [0..<length (concat delivered)]
         \<and> (\<forall>b\<in>set delivered. 0 < length b \<and> length b \<le> 5)
         \<and> int (length delivered) = \<lceil>real (length (concat delivered)) / 5\<rceil>
         \<and> map length delivered
             = replicate (length (concat delivered) div 5) 5
               @ (if length (concat delivered) mod 5 = 0 then []
                  else [length (concat delivered) mod 5])
         \<and> (\<forall>h w. extract_and_process_pdf E buffer h (chunking_options N K) w
                    = Some (case run_batches h delivered w of
                              (Inl e, w') \<Rightarrow> (Inl (reraised_by_extractor e), w')
                            | (Inr u, w') \<Rightarrow> (Inr (page_count_result pages), w')))"
proof -
  have s: "0 < N - K" using assms(4) by simp
  let ?ws = "windows_from (split (clean_text full_text)) N (N - K) 0 0
               (remaining (length (split (clean_text full_text))) (N - K) 0)"
  have "extract_and_process_pdf E buffer record_batch (chunking_options N K) []
          = Some (Inr (page_count_result pages), batches ?ws)"
    by (rule delivered_to_record_batch [OF assms(1,2) s])
  moreover have "int (length (concat (batches ?ws)))
             = \<lceil>real (length (split (clean_text full_text))) / real_of_int (N - K)\<rceil>"
    using remaining_ceiling [OF s] by (simp add: concat_batches)
  moreover have "map PageChunk.chunk_index (concat (batches ?ws))
             = map int [0..<length (concat (batches ?ws))]"
    by (simp add: concat_batches chunk_index_windows_from)
  moreover have "\<forall>b\<in>set (batches ?ws). 0 < length b \<and> length b \<le> 5"
    by (rule batches_bounds)
  moreover have "int (length (batches ?ws)) = \<lceil>real (length (concat (batches ?ws))) / 5\<rceil>"
    by (simp only: concat_batches length_batches)
  moreover have "map length (batches ?ws)
             = replicate (length (concat (batches ?ws)) div 5) 5
               @ (if length (concat (batches ?ws)) mod 5 = 0 then []
                  else [length (concat (batches ?ws)) mod 5])"
    by (simp only: concat_batches batches_sizes)
  moreover have "\<forall>h w. extract_and_process_pdf E buffer h (chunking_options N K) w
                    = Some (case run_batches h (batches ?ws) w of
                              (Inl e, w') \<Rightarrow> (Inl (reraised_by_extractor e), w')
                            | (Inr u, w') \<Rightarrow> (Inr (page_count_result pages), w'))"
    using extract_and_process_pdf_batches [OF assms(1,2) s] by blast
  ultimately show ?thesis by blast
qed

theorem batch_sizes_witness:
  "pdf_reader (single_page (str ''a b c d e f g h i j k l'')) []
     = Inr [Inr (str ''a b c d e f g h i j k l'')]
   \<and> extract_pages [Inr (str ''a b c d e f g h i j k l'')] []
     = Inr (str ''a b c d e f g h i j k l'' @ [10])
   \<and> (0::int) \<le> 0 \<and> (0::int) < 1
   \<and> (\<exists>delivered.
           extract_and_process_pdf (single_page (str ''a b c d e f g h i j k l'')) []
               record_batch (chunking_options 1 0) []
             = Some (Inr (page_count_result [Inr (str ''a b c d e f g h i j k l'') :: exn + pystr]), delivered)
         \<and> int (length (concat delivered))
             = \<lceil>real (length (split (clean_text (str ''a b c d e f g h i j k l'' @ [10]))))
                  / real_of_int (1 - 0)\<rceil>
         \<and> map PageChunk.chunk_index (concat delivered)
             = map int [0..<length (concat delivered)]
         \<and> (\<forall>b\<in>set delivered. 0 < length b \<and> length b \<le> 5)
         \<and> int (length delivered) = \<lceil>real (length (concat delivered)) / 5\<rceil>
         \<and> map length delivered
             = replicate (length (concat delivered) div 5) 5
               @ (if length (concat delivered) mod 5 = 0 then []
                  else [length (concat delivered) mod 5])
         \<and> (\<forall>h w. extract_and_process_pdf (single_page (str ''a b c d e f g h i j k l'')) []
                      h (chunking_options 1 0) w
                    = Some (case run_batches h delivered w of
                              (Inl e, w') \<Rightarrow> (Inl (reraised_by_extractor e), w')
                            | (Inr u, w') \<Rightarrow>
                                (Inr (page_count_result [Inr (str ''a b c d e f g h i j k l'') :: exn + pystr]), w'))))
   \<and> length (split (clean_text (str ''a b c d e f g h i j k l'' @ [10]))) = 12
   \<and> (\<exists>delivered.
           extract_and_process_pdf (single_page (str ''a b c d e f g h i j k l'')) []
               record_batch (chunking_options 1 0) []
             = Some (Inr (page_count_result [Inr (str ''a b c d e f g h i j k l'') :: exn + pystr]), delivered)
         \<and> length (concat delivered) = 12
         \<and> map length delivered = [5, 5, 2])"
proof -
  let ?t = "str ''a b c d e f g h i j k l''"
  have 1: "pdf_reader (single_page ?t) [] = Inr [Inr ?t]"
    by (simp add: single_page_def)
  have 2: "extract_pages [Inr ?t] [] = Inr (?t @ [10])"
    by simp
  have h3: "(0::int) \<le> 0" and h4: "(0::int) < 1" by simp_all
  note 3 = batch_sizes [OF 1 2 h3 h4]
  have 4: "\<exists>delivered.
           extract_and_process_pdf (single_page ?t) [] record_batch (chunking_options 1 0) []
             = Some (Inr (page_count_result [Inr ?t :: exn + pystr]), delivered)
         \<and> length (concat delivered) = 12
         \<and> map length delivered = [5, 5, 2]"
    by (simp add: run_simps)
  have 5: "length (split (clean_text (?t @ [10]))) = 12"
    by (simp add: run_simps)
  show ?thesis
    by (intro conjI) (rule 1 2 h3 h4 3 4 5)+
qed

lemma split_tokens: "list_all is_token (split s)"
proof (induction s rule: split.induct)
  case 1
  then show ?case by simp
next
  case (2 c cs)
  have "list_all (\<lambda>c. \<not> isspace c) (takeWhile (\<lambda>x. \<not> isspace x) cs)"
    unfolding list_all_iff using set_takeWhileD by fastforce
  then show ?case using 2 by (simp add: is_token_def)
qed

lemma split_token_append:
  assumes "is_token w" and "rest = [] \<or> isspace (hd rest)"
  shows "split (w @ rest) = w # split rest"
proof -
  obtain c cs where w: "w = c # cs" using assms(1) by (cases w) (auto simp: is_token_def)
  have c: "\<not> isspace c" and cs: "\<forall>x\<in>set cs. \<not> isspace x"
    using assms(1) by (auto simp: w is_token_def list_all_iff)
  have r: "takeWhile (\<lambda>x. \<not> isspace x) rest = []" "dropWhile (\<lambda>x. \<not> isspace x) rest = rest"
    using assms(2) by (cases rest; simp)+
  have "takeWhile (\<lambda>x. \<not> isspace x) (cs @ rest) = cs"
    using cs r(1) by (simp add: takeWhile_append2)
  moreover have "dropWhile (\<lambda>x. \<not> isspace x) (cs @ rest) = rest"
    using cs r(2) by (simp add: dropWhile_append2)
  ultimately show ?thesis using c by (simp add: w)
qed

lemma split_join: "list_all is_token ws \<Longrightarrow> split (join [32] ws) = ws"
proof (induction "[32::nat]" ws rule: join.induct)
  case 1
  then show ?case by simp
next
  case (2 w)
  then show ?case using split_token_append [of w "[]"] by simp
next
  case (3 w v ws)
  have "split (w @ 32 # join [32] (v # ws)) = w # split (32 # join [32] (v # ws))"
    using 3(2) by (intro split_token_append) (simp_all add: isspace_def)
  also have "split (32 # join [32] (v # ws)) = split (join [32] (v # ws))"
    by (simp add: isspace_def)
  finally show ?case using 3 by simp
qed

lemma py_slice_window:
  "0 \<le> a \<Longrightarrow> 0 \<le> n \<Longrightarrow> py_slice xs a (a + n) = take (nat n) (drop (nat a) xs)"
  by (auto simp: py_slice_def slice_bound_def Let_def min_def nat_add_distrib)

lemma tokens_window:
  assumes "list_all is_token words" and "0 \<le> a" and "0 \<le> n"
  shows "tokens \<lparr>PageChunk.page_number = p, chunk_index = x,
                 content = join [32] (py_slice words a (a + n))\<rparr>
         = take (nat n) (drop (nat a) words)"
proof -
  have "list_all is_token (take (nat n) (drop (nat a) words))"
    using assms(1) unfolding list_all_iff
    by (meson in_set_dropD in_set_takeD)
  then show ?thesis
    by (simp add: tokens_def py_slice_window [OF assms(2,3)] split_join)
qed

lemma window_overlap:
  assumes "length (take n (drop a ws)) = n \<or> (2 * k \<le> n \<and> a + 2 * (n - k) < length ws)"
    and "k \<le> n" and "a \<le> length ws"
  shows "drop (length (take n (drop a ws)) - k) (take n (drop a ws))
         = take k (take n (drop (a + (n - k)) ws))"
proof -
  have full: "a + n \<le> length ws" using assms by (auto simp: min_def split: if_splits)
  then have len: "length (take n (drop a ws)) = n" by simp
  have "drop (n - k) (take n (drop a ws)) = take k (drop (n - k) (drop a ws))"
    using assms(2) by (simp add: drop_take)
  also have "\<dots> = take k (drop (a + (n - k)) ws)" by (simp add: add.commute)
  also have "\<dots> = take k (take n (drop (a + (n - k)) ws))"
    using assms(2) by (simp add: min_def)
  finally show ?thesis by (simp only: len)
qed

lemma cursor_in_range:
  assumes "0 < s" and "j < remaining m s 0"
  shows "int j * s < int m"
proof -
  let ?a = "int m + s - 1"
  have "int j < ?a div s" using assms(2) by (simp add: remaining_def)
  then have "int j + 1 \<le> ?a div s" by simp
  then have "(int j + 1) * s \<le> (?a div s) * s"
    using assms(1) by (simp add: mult_right_mono)
  also have "\<dots> \<le> ?a"
    using assms(1) by (metis add.commute div_mult_mod_eq le_add_same_cancel2 pos_mod_sign)
  finally show ?thesis by (simp add: algebra_simps)
qed

lemma tokens_of_delivered:
  assumes "0 \<le> K" and "K < N" and "list_all is_token words"
    and "j < remaining (length words) (N - K) 0"
  shows "tokens (windows_from words N (N - K) 0 0 (remaining (length words) (N - K) 0) ! j)
         = take (nat N) (drop (j * (nat N - nat K)) words)"
proof -
  have "nat (int j * (N - K)) = j * (nat N - nat K)"
    using assms(1,2) by (simp add: nat_mult_distrib nat_diff_distrib)
  moreover have "0 \<le> int j * (N - K)" using assms(2) by simp
  moreover have "0 \<le> N" using assms(1,2) by simp
  ultimately show ?thesis
    using tokens_window [OF assms(3), of "int j * (N - K)" N 0 "int j"]
    by (simp add: nth_windows_from [OF assms(4)])
qed

text \<open>
  C4, as amended. For \<open>0 \<le> K < N\<close> and adjacent chunks \<open>c\<^sub>i\<close>, \<open>c\<^sub>i\<^sub>+\<^sub>1\<close>: the last \<open>K\<close>
  tokens of \<open>c\<^sub>i\<close> are the first \<open>K\<close> tokens of \<open>c\<^sub>i\<^sub>+\<^sub>1\<close> whenever \<open>c\<^sub>i\<close> has \<open>N\<close> tokens.
  When \<open>2 * K \<le> N\<close> that is the case for every pair but possibly the last.
\<close>

theorem overlap_of_adjacent_chunks:
  assumes "pdf_reader E buffer = Inr pages"
    and "extract_pages pages [] = Inr full_text"
    and "0 \<le> K" and "K < N"
    and "extract_and_process_pdf E buffer record_batch (chunking_options N K) []
           = Some (Inr (page_count_result pages), delivered)"
    and "Suc i < length (concat delivered)"
    and "length (tokens (concat delivered ! i)) = nat N
         \<or> (2 * K \<le> N \<and> Suc (Suc i) < length (concat delivered))"
  shows "drop (length (tokens (concat delivered ! i)) - nat K) (tokens (concat delivered ! i))
         = take (nat K) (tokens (concat delivered ! Suc i))"
proof -
  let ?words = "split (clean_text full_text)"
  let ?n = "remaining (length ?words) (N - K) 0"
  let ?ws = "windows_from ?words N (N - K) 0 0 ?n"
  define st where "st = nat N - nat K"
  have sd: "int st = N - K" using assms(3,4) by (simp add: st_def)
  have s: "0 < N - K" using assms(4) by simp
  have d: "concat delivered = ?ws"
    using delivered_to_record_batch [OF assms(1,2) s] assms(5) by (simp add: concat_batches)
  have n: "Suc i < ?n" using assms(6) by (simp add: d)
  have tok: "list_all is_token ?words" by (rule split_tokens)
  have ti: "tokens (concat delivered ! i) = take (nat N) (drop (i * st) ?words)"
    unfolding d st_def using tokens_of_delivered [OF assms(3,4) tok, of i] n by simp
  have tsi: "tokens (concat delivered ! Suc i) = take (nat N) (drop (i * st + (nat N - nat K)) ?words)"
    unfolding d st_def using tokens_of_delivered [OF assms(3,4) tok, of "Suc i"] n
    by (simp add: add.commute)
  have "int i * (N - K) < int (length ?words)"
    using cursor_in_range [OF s, of i "length ?words"] n by simp
  then have "int (i * st) < int (length ?words)" by (simp add: sd)
  then have a: "i * st \<le> length ?words"
    by (simp only: of_nat_less_iff less_imp_le)
  have k: "nat K \<le> nat N" using assms(3,4) by simp
  have c: "length (take (nat N) (drop (i * st) ?words)) = nat N
           \<or> (2 * nat K \<le> nat N \<and> i * st + 2 * (nat N - nat K) < length ?words)"
  proof (cases "length (tokens (concat delivered ! i)) = nat N")
    case True
    then show ?thesis by (simp only: ti) simp
  next
    case False
    then have b: "2 * K \<le> N" "Suc (Suc i) < ?n" using assms(7) by (simp_all add: d)
    have "int (Suc (Suc i)) * (N - K) < int (length ?words)"
      using cursor_in_range [OF s b(2)] .
    then have "int (i * st + 2 * st) < int (length ?words)"
      by (simp add: sd algebra_simps)
    then have "i * st + 2 * (nat N - nat K) < length ?words"
      by (simp only: of_nat_less_iff st_def)
    moreover have "2 * nat K \<le> nat N" using b(1) assms(3) by linarith
    ultimately show ?thesis by simp
  qed
  show ?thesis
    unfolding ti tsi by (rule window_overlap [OF c k a])
qed

theorem overlap_of_adjacent_chunks_witness:
  "pdf_reader (single_page (str ''a b c d e f'')) [] = Inr [Inr (str ''a b c d e f'')]
   \<and> extract_pages [Inr (str ''a b c d e f'')] [] = Inr (str ''a b c d e f'' @ [10])
   \<and> (0::int) \<le> 1 \<and> (1::int) < 3
   \<and> extract_and_process_pdf (single_page (str ''a b c d e f'')) [] record_batch
         (chunking_options 3 1) []
       = Some (Inr (page_count_result [Inr (str ''a b c d e f'') :: exn + pystr]),
               [[chunk 0 (str ''a b c''), chunk 1 (str ''c d e''), chunk 2 (str ''e f'')]])
   \<and> Suc 0 < length (concat [[chunk 0 (str ''a b c''), chunk 1 (str ''c d e''),
                                chunk 2 (str ''e f'')]])
   \<and> length (tokens (concat [[chunk 0 (str ''a b c''), chunk 1 (str ''c d e''),
                               chunk 2 (str ''e f'')]] ! 0)) = nat 3
   \<and> 2 * 1 \<le> (3::int)
   \<and> Suc (Suc 0) < length (concat [[chunk 0 (str ''a b c''), chunk 1 (str ''c d e''),
                                     chunk 2 (str ''e f'')]])
   \<and> drop (length (tokens (concat [[chunk 0 (str ''a b c''), chunk 1 (str ''c d e''),
                                     chunk 2 (str ''e f'')]] ! 0)) - nat 1)
        (tokens (concat [[chunk 0 (str ''a b c''), chunk 1 (str ''c d e''),
                          chunk 2 (str ''e f'')]] ! 0))
       = take (nat 1) (tokens (concat [[chunk 0 (str ''a b c''), chunk 1 (str ''c d e''),
                                        chunk 2 (str ''e f'')]] ! Suc 0))
   \<and> take (nat 1) (tokens (concat [[chunk 0 (str ''a b c''), chunk 1 (str ''c d e''),
                                    chunk 2 (str ''e f'')]] ! Suc 0))
       = [str ''c'']"
proof -
  let ?t = "str ''a b c d e f''"
  let ?d = "[[chunk 0 (str ''a b c''), chunk 1 (str ''c d e''), chunk 2 (str ''e f'')]]"
  have 1: "pdf_reader (single_page ?t) [] = Inr [Inr ?t]"
    by (simp add: single_page_def)
  have 2: "extract_pages [Inr ?t] [] = Inr (?t @ [10])" by simp
  have 3: "(0::int) \<le> 1" and 4: "(1::int) < 3" by simp_all
  have 5: "extract_and_process_pdf (single_page ?t) [] record_batch (chunking_options 3 1) []
       = Some (Inr (page_count_result [Inr ?t :: exn + pystr]), ?d)"
    by (simp add: run_simps chunk_def)
  have 6: "Suc 0 < length (concat ?d)" by simp
  have 7: "length (tokens (concat ?d ! 0)) = nat 3"
    by (simp add: tokens_def chunk_def str_def isspace_def)
  have 8: "2 * 1 \<le> (3::int)" and 9: "Suc (Suc 0) < length (concat ?d)" by simp_all
  have 10: "length (tokens (concat ?d ! 0)) = nat 3
           \<or> (2 * 1 \<le> (3::int) \<and> Suc (Suc 0) < length (concat ?d))"
    using 8 9 by simp
  have 11: "take (nat 1) (tokens (concat ?d ! Suc 0)) = [str ''c'']"
    by (simp add: tokens_def chunk_def str_def isspace_def)
  show ?thesis
    by (intro conjI)
       (rule 1 2 3 4 5 6 7 8 9 11 overlap_of_adjacent_chunks [OF 1 2 3 4 5 6 10])+
qed

text \<open>
  C4 as stated fails when \<open>K > N / 2\<close>: with \<open>N = 4\<close>, \<open>K = 3\<close> and the words \<open>a b c\<close> the
  chunks are \<open>a b c\<close>, \<open>b c\<close> and \<open>c\<close>. The second is not the final chunk, and the last
  three tokens of the first are not the first three tokens of the second.
\<close>

theorem overlap_counterexample:
  "extract_and_process_pdf (single_page (str ''a b c'')) [] record_batch
       (chunking_options 4 3) []
     = Some (Inr (page_count_result [Inr (str ''a b c'') :: exn + pystr]),
             [[chunk 0 (str ''a b c''), chunk 1 (str ''b c''), chunk 2 (str ''c'')]])
   \<and> drop (length (tokens (chunk 0 (str ''a b c''))) - 3) (tokens (chunk 0 (str ''a b c'')))
       = [str ''a'', str ''b'', str ''c'']
   \<and> take 3 (tokens (chunk 1 (str ''b c''))) = [str ''b'', str ''c'']
   \<and> drop (length (tokens (chunk 0 (str ''a b c''))) - 3) (tokens (chunk 0 (str ''a b c'')))
       \<noteq> take 3 (tokens (chunk 1 (str ''b c'')))"
  by (simp add: run_simps chunk_def tokens_def)

section \<open>The batch handler\<close>

lemma length_embedding_results:
  "embedding_results items = Some rs \<Longrightarrow> length rs = length items"
proof (induction items arbitrary: rs)
  case Nil
  then show ?case by simp
next
  case (Cons item items)
  then show ?case by (cases item) (auto split: option.splits)
qed

lemma generate_batch_embeddings_world:
  "generate_batch_embeddings E texts w = (r, w') \<Longrightarrow>
   insert_requests w' = insert_requests w \<and> document_chunks w' = document_chunks w
   \<and> jina_requests w' = jina_requests w @ (if texts = [] then [] else [texts])"
  by (auto simp: generate_batch_embeddings_def Let_def split: if_splits sum.splits option.splits)

lemma generate_batch_embeddings_length:
  assumes "requests_post E w texts = Inr response"
    and "json_data response = Some items"
    and "generate_batch_embeddings E texts w = (Inr embeddings, w')"
    and "texts \<noteq> []"
  shows "length embeddings = length items"
  using assms length_embedding_results
  by (auto simp: generate_batch_embeddings_def Let_def split: if_splits sum.splits option.splits)

lemma build_vector_chunks_short:
  "length embeddings < n + length chunks \<Longrightarrow> n \<le> length embeddings \<Longrightarrow>
   \<exists>e. build_vector_chunks doc usr chat embeddings (enumerate n chunks) = Inl e"
proof (induction chunks arbitrary: n)
  case Nil
  then show ?case by simp
next
  case (Cons c cs)
  show ?case
  proof (cases "n < length embeddings")
    case True
    then obtain e where
      "build_vector_chunks doc usr chat embeddings (enumerate (Suc n) cs) = Inl e"
      using Cons.IH [of "Suc n"] Cons.prems by auto
    then show ?thesis using True by simp
  next
    case False
    then show ?thesis by simp
  qed
qed

lemma build_vector_chunks_rows:
  "build_vector_chunks doc usr chat embeddings (enumerate n chunks) = Inr vs \<Longrightarrow>
   map VectorChunk.content vs = map PageChunk.content chunks
   \<and> map VectorChunk.chunk_index vs = map PageChunk.chunk_index chunks"
proof (induction chunks arbitrary: n vs)
  case Nil
  then show ?case by simp
next
  case (Cons c cs)
  then show ?case by (auto split: if_splits sum.splits)
qed

lemma store_batch_vectors_rows:
  "store_batch_vectors E vs w = (r, w') \<Longrightarrow>
   jina_requests w' = jina_requests w
   \<and> document_chunks w' = document_chunks w @ (if isl r then [] else vs)"
  by (auto simp: store_batch_vectors_def Let_def split: if_splits sum.splits)

text \<open>
  C2, as amended. If the response of the embeddings API holds fewer vectors than the
  batch has texts, \<open>handle_batch_processing\<close> raises, and all it leaves behind is the
  request to the API: no insert is issued and the table is unchanged.
\<close>

theorem too_few_embeddings:
  assumes "requests_post E w (map PageChunk.content chunks) = Inr response"
    and "json_data response = Some items"
    and "length items < length chunks"
  shows "\<exists>e. handle_batch_processing E chunks doc usr chat w
              = (Inl e, w\<lparr>jina_requests := jina_requests w @ [map PageChunk.content chunks]\<rparr>)"
proof -
  let ?texts = "map PageChunk.content chunks"
  let ?w' = "w\<lparr>jina_requests := jina_requests w @ [?texts]\<rparr>"
  have ne: "?texts \<noteq> []" using assms(3) by auto
  obtain r w1 where g: "generate_batch_embeddings E ?texts w = (r, w1)"
    by (cases "generate_batch_embeddings E ?texts w")
  have w1: "w1 = ?w'"
    using g ne
    by (auto simp: generate_batch_embeddings_def Let_def split: sum.splits option.splits)
  show ?thesis
  proof (cases r)
    case (Inl e)
    then show ?thesis using g w1 by (simp add: handle_batch_processing_def Let_def)
  next
    case (Inr embeddings)
    have "length embeddings = length items"
      using generate_batch_embeddings_length [OF assms(1,2) _ ne] g Inr by simp
    then obtain e where
      "build_vector_chunks doc usr chat embeddings (enumerate 0 chunks) = Inl e"
      using build_vector_chunks_short [of embeddings 0 chunks doc usr chat] assms(3) by auto
    then show ?thesis using g w1 Inr by (simp add: handle_batch_processing_def Let_def)
  qed
qed

theorem too_few_embeddings_witness:
  "requests_post short_api empty_world
       (map PageChunk.content [chunk 0 (str ''a''), chunk 1 (str ''b'')])
     = Inr (ok_response [Some [0]])
   \<and> json_data (ok_response [Some [0]]) = Some [Some [0]]
   \<and> length [Some [0::real]] < length [chunk 0 (str ''a''), chunk 1 (str ''b'')]
   \<and> (\<exists>e. handle_batch_processing short_api [chunk 0 (str ''a''), chunk 1 (str ''b'')]
              (str ''doc'') (str ''usr'') (str ''chat'') empty_world
            = (Inl e, empty_world\<lparr>jina_requests := jina_requests empty_world
                 @ [map PageChunk.content [chunk 0 (str ''a''), chunk 1 (str ''b'')]]\<rparr>))"
proof -
  let ?chunks = "[chunk 0 (str ''a''), chunk 1 (str ''b'')]"
  have 1: "requests_post short_api empty_world (map PageChunk.content ?chunks)
             = Inr (ok_response [Some [0]])"
    by (simp add: short_api_def single_page_def chunk_def)
  have 2: "json_data (ok_response [Some [0]]) = Some [Some [0]]"
    by (simp add: ok_response_def)
  have 3: "length [Some [0::real]] < length ?chunks" by simp
  show ?thesis
    by (intro conjI) (rule 1 2 3 too_few_embeddings [OF 1 2 3])+
qed

text \<open>
  C2 as stated fails for a response with more vectors than texts: the surplus is
  ignored, the handler returns, and the row is written.
\<close>

theorem surplus_embeddings_counterexample:
  "requests_post surplus_api empty_world [str ''a''] = Inr (ok_response [Some [0], Some [0]])
   \<and> length [Some [0::real], Some [0]] \<noteq> length [str ''a'']
   \<and> handle_batch_processing surplus_api [chunk 0 (str ''a'')]
         (str ''doc'') (str ''usr'') (str ''chat'') empty_world
       = (Inr (),
          \<lparr>jina_requests = [[str ''a'']],
           insert_requests =
             [[\<lparr>document_id = str ''doc'', user_id = str ''usr'', chat_id = str ''chat'',
                page_number = 0, chunk_index = 0, content = str ''a'', embedding = [0]\<rparr>]],
           document_chunks =
             [\<lparr>document_id = str ''doc'', user_id = str ''usr'', chat_id = str ''chat'',
               page_number = 0, chunk_index = 0, content = str ''a'', embedding = [0]\<rparr>]\<rparr>)"
  by (simp add: pipeline_simps surplus_api_def single_page_def ok_response_def chunk_def
                empty_world_def)

section \<open>The pipeline\<close>

lemma handle_batch_apply:
  "handle_batch E doc usr chat chunks (n, w) =
     (case handle_batch_processing E chunks doc usr chat w of
        (Inl e, w') \<Rightarrow> (Inl e, (n, w'))
      | (Inr u, w') \<Rightarrow> (Inr (), (n + int (length chunks), w')))"
  by (simp add: handle_batch_def split: prod.splits sum.splits)

lemma handle_batch_processing_rows:
  assumes "handle_batch_processing E b doc usr chat w = (r, w')"
  shows "if isl r then document_chunks w' = document_chunks w
         else (\<exists>rows. document_chunks w' = document_chunks w @ rows
                 \<and> map VectorChunk.content rows = map PageChunk.content b
                 \<and> map VectorChunk.chunk_index rows = map PageChunk.chunk_index b)"
proof -
  obtain g w1 where g: "generate_batch_embeddings E (map PageChunk.content b) w = (g, w1)"
    by (cases "generate_batch_embeddings E (map PageChunk.content b) w")
  have w1: "document_chunks w1 = document_chunks w"
    using generate_batch_embeddings_world [OF g] by simp
  show ?thesis
  proof (cases g)
    case (Inl e)
    then show ?thesis using assms g w1 by (auto simp: handle_batch_processing_def Let_def)
  next
    case (Inr embeddings)
    show ?thesis
    proof (cases "build_vector_chunks doc usr chat embeddings (enumerate 0 b)")
      case (Inl e)
      then show ?thesis using assms g w1 Inr by (auto simp: handle_batch_processing_def Let_def)
    next
      case vs: (Inr vs)
      obtain r0 w0 where s: "store_batch_vectors E vs w1 = (r0, w0)"
        by (cases "store_batch_vectors E vs w1")
      have same: "w' = w0 \<and> isl r = isl r0"
        using assms g Inr vs s
        by (auto simp: handle_batch_processing_def Let_def split: sum.splits)
      show ?thesis
        using store_batch_vectors_rows [OF s] build_vector_chunks_rows [OF vs] w1 same
        by auto
    qed
  qed
qed

lemma handle_batch_processing_message:
  assumes "handle_batch_processing E b doc usr chat w = (Inl e, w')"
  shows "encodable (message e)"
  using assms unfolding handle_batch_processing_def Let_def
  by (auto split: prod.splits sum.splits)

lemma run_batches_handle_batch:
  "run_batches (handle_batch E doc usr chat) bs (n0, w) = (Inr u, (n, w1)) \<Longrightarrow>
   n = n0 + int (length (concat bs))
   \<and> (\<exists>rows. document_chunks w1 = document_chunks w @ rows
         \<and> map VectorChunk.content rows = map PageChunk.content (concat bs)
         \<and> map VectorChunk.chunk_index rows = map PageChunk.chunk_index (concat bs))"
proof (induction bs arbitrary: n0 w)
  case Nil
  then show ?case by simp
next
  case (Cons b bs)
  obtain r w' where h: "handle_batch_processing E b doc usr chat w = (r, w')"
    by (cases "handle_batch_processing E b doc usr chat w")
  show ?case
  proof (cases r)
    case (Inl e)
    then show ?thesis using Cons.prems h by (simp add: handle_batch_apply)
  next
    case (Inr v)
    then have "run_batches (handle_batch E doc usr chat) bs (n0 + int (length b), w')
               = (Inr u, (n, w1))"
      using Cons.prems h by (simp add: handle_batch_apply)
    from Cons.IH [OF this] obtain rows where
      n: "n = n0 + int (length b) + int (length (concat bs))"
      and rows: "document_chunks w1 = document_chunks w' @ rows"
        "map VectorChunk.content rows = map PageChunk.content (concat bs)"
        "map VectorChunk.chunk_index rows = map PageChunk.chunk_index (concat bs)"
      by blast
    from handle_batch_processing_rows [OF h] Inr obtain rows0 where
      rows0: "document_chunks w' = document_chunks w @ rows0"
        "map VectorChunk.content rows0 = map PageChunk.content b"
        "map VectorChunk.chunk_index rows0 = map PageChunk.chunk_index b"
      by auto
    have "document_chunks w1 = document_chunks w @ (rows0 @ rows)"
      using rows(1) rows0(1) by simp
    moreover have "map VectorChunk.content (rows0 @ rows) = map PageChunk.content (concat (b # bs))"
      using rows(2) rows0(2) by simp
    moreover have "map VectorChunk.chunk_index (rows0 @ rows)
                     = map PageChunk.chunk_index (concat (b # bs))"
      using rows(3) rows0(3) by simp
    ultimately show ?thesis using n by (simp only: concat.simps length_append) auto
  qed
qed

lemma run_batches_handle_batch_message:
  "run_batches (handle_batch E doc usr chat) bs (n0, w) = (Inl e, s) \<Longrightarrow>
   encodable (message e)"
proof (induction bs arbitrary: n0 w)
  case Nil
  then show ?case by simp
next
  case (Cons b bs)
  obtain r w' where h: "handle_batch_processing E b doc usr chat w = (r, w')"
    by (cases "handle_batch_processing E b doc usr chat w")
  show ?case
  proof (cases r)
    case (Inl e')
    then have "e' = e" using Cons.prems h by (simp add: handle_batch_apply)
    then show ?thesis using handle_batch_processing_message h Inl by blast
  next
    case (Inr v)
    then have "run_batches (handle_batch E doc usr chat) bs (n0 + int (length b), w')
               = (Inl e, s)"
      using Cons.prems h by (simp add: handle_batch_apply)
    then show ?thesis by (rule Cons.IH)
  qed
qed

lemma run_until_failure:
  assumes "run_batches (handle_batch E doc usr chat) handled (0, w) = (Inr u, (n, w1))"
    and "handle_batch_processing E b doc usr chat w1 = (Inl e, w2)"
  shows "run_batches (handle_batch E doc usr chat) (handled @ b # rest) (0, w) = (Inl e, (n, w2))"
  using assms by (simp add: run_batches_append handle_batch_apply)

lemma extract_and_process_pdf_message:
  assumes "extract_and_process_pdf E buffer h options w = Some (Inl e, w')"
  shows "encodable (message e)"
  using assms unfolding extract_and_process_pdf_def Let_def
  by (auto split: option.splits prod.splits sum.splits if_splits)

lemma extract_and_process_pdf_returns:
  "\<exists>x. extract_and_process_pdf E buffer h (chunking_options 250 30) s = Some x"
proof -
  have p: "(0::int) < 250 - 30" by simp
  show ?thesis
    unfolding extract_and_process_pdf_def
    by (auto simp: Let_def chunk_loop_feed [OF p] getitem_def str_def
             split: sum.splits prod.splits)
qed

lemma process_document_rag_batches:
  assumes "encodable doc"
    and "storage_download E path = Inr (Some buffer)" and "buffer \<noteq> []"
    and "pdf_reader E buffer = Inr pages"
    and "extract_pages pages [] = Inr full_text"
    and "extract_and_process_pdf E buffer record_batch (chunking_options 250 30) []
           = Some (Inr (page_count_result pages), planned)"
  shows "process_document_rag E doc usr chat path w
         = Some (case run_batches (handle_batch E doc usr chat) planned (0, w) of
                   (Inl e, s) \<Rightarrow> (Inr (failed_result e), snd s)
                 | (Inr u, s) \<Rightarrow>
                     (Inr \<lparr>success = True, page_count = int (length pages),
                           total_chunks = fst s, error = None\<rparr>, snd s))"
proof -
  have p: "(0::int) < 250 - 30" by simp
  have pl: "planned = batches (windows_from (split (clean_text full_text)) 250 (250 - 30) 0 0
                         (remaining (length (split (clean_text full_text))) (250 - 30) 0))"
    using delivered_to_record_batch [OF assms(4,5) p] assms(6) by simp
  obtain r n w1 where rb: "run_batches (handle_batch E doc usr chat) planned (0, w) = (r, (n, w1))"
    by (cases "run_batches (handle_batch E doc usr chat) planned (0, w)") auto
  have ex: "extract_and_process_pdf E buffer (handle_batch E doc usr chat)
              (chunking_options 250 30) (0, w)
            = Some (case r of Inl e \<Rightarrow> (Inl (reraised_by_extractor e), (n, w1))
                    | Inr u \<Rightarrow> (Inr (page_count_result pages), (n, w1)))"
    using extract_and_process_pdf_batches [OF assms(4,5) p, of "handle_batch E doc usr chat" "(0, w)"]
      rb pl
    by (simp split: sum.splits)
  show ?thesis
  proof (cases r)
    case (Inl e)
    then have enc: "encodable (message e)"
      using run_batches_handle_batch_message rb by blast
    show ?thesis
      unfolding process_document_rag_def
      using assms(1,3) enc
      by (simp add: py_print_written print_then_raise_written is_surrogate_def assms(2) ex
                    Inl rb)
  next
    case (Inr u)
    show ?thesis
      unfolding process_document_rag_def
      using assms(1,3)
      by (simp add: py_print_written is_surrogate_def assms(2) ex Inr rb getitem_def)
  qed
qed

lemma process_document_rag_returns:
  "\<exists>r w'. process_document_rag E doc usr chat path w = Some (r, w')"
proof (cases "py_print ([128640] @ str '' [RAG Pipeline] Starting: '' @ doc)")
  case (Some e)
  then show ?thesis by (simp add: process_document_rag_def)
next
  case None
  show ?thesis
  proof (cases "storage_download E path")
    case (Inl e)
    then show ?thesis
      using None by (simp add: process_document_rag_def split: option.splits)
  next
    case (Inr response)
    show ?thesis
    proof (cases "response = None \<or> response = Some []")
      case True
      then show ?thesis
        using None Inr by (auto simp: process_document_rag_def split: option.splits)
    next
      case False
      obtain x where "extract_and_process_pdf E (the response) (handle_batch E doc usr chat)
                        (chunking_options 250 30) (0, w) = Some x"
        using extract_and_process_pdf_returns
                [of E "the response" "handle_batch E doc usr chat" "(0, w)"]
        by blast
      then show ?thesis using None Inr False
        by (auto simp: process_document_rag_def Let_def
                 split: sum.splits prod.splits option.splits)
    qed
  qed
qed

lemma process_document_rag_contained:
  "(\<exists>r w'. process_document_rag E doc usr chat path w = Some (Inr r, w'))
     \<longleftrightarrow> encodable doc \<and> (\<forall>e. storage_download E path = Inl e \<longrightarrow> encodable (message e))"
proof (cases "encodable doc")
  case False
  then show ?thesis by (simp add: process_document_rag_def py_print_def is_surrogate_def)
next
  case True
  have start: "py_print ([128640] @ str '' [RAG Pipeline] Starting: '' @ doc) = None"
    using True by (simp add: py_print_written is_surrogate_def)
  show ?thesis
  proof (cases "storage_download E path")
    case (Inl e)
    then show ?thesis
      using True
      by (simp only: process_document_rag_def start Let_def)
         (simp add: py_print_def is_surrogate_def)
  next
    case dl: (Inr response)
    show ?thesis
    proof (cases "response = None \<or> response = Some []")
      case True
      then show ?thesis
        using \<open>encodable doc\<close> dl
        by (simp only: process_document_rag_def start Let_def)
           (auto simp: py_print_def is_surrogate_def)
    next
      case False
      obtain x where x: "extract_and_process_pdf E (the response) (handle_batch E doc usr chat)
                        (chunking_options 250 30) (0, w) = Some x"
        using extract_and_process_pdf_returns
                [of E "the response" "handle_batch E doc usr chat" "(0, w)"]
        by blast
      obtain r s where xs: "x = (r, s)" by (cases x)
      show ?thesis
      proof (cases r)
        case (Inl e)
        then have "encodable (message e)"
          using extract_and_process_pdf_message
                  [of E "the response" "handle_batch E doc usr chat" "chunking_options 250 30"
                      "(0, w)" e s] x xs
          by simp
        then show ?thesis
          using \<open>encodable doc\<close> dl False x xs Inl
          by (simp only: process_document_rag_def start Let_def)
             (simp add: py_print_written is_surrogate_def)
      next
        case (Inr result)
        then show ?thesis
          using \<open>encodable doc\<close> dl False x xs
          by (simp only: process_document_rag_def start Let_def)
             (simp add: getitem_def py_print_def is_surrogate_def split: option.splits)
      qed
    qed
  qed
qed

text \<open>
  C6. The line that announces the document is printed before the download is attempted,
  so the download returns only in a run whose document id can be written. When it then
  returns nothing or an empty payload, the result is the failed result with the message
  \<open>Download failed: No data returned\<close>, page count 0 and 0 chunks, and the state is
  untouched: no request to the embeddings API, no insert.
\<close>

theorem empty_download:
  assumes "encodable doc"
    and "storage_download E path = Inr None \<or> storage_download E path = Inr (Some [])"
  shows "process_document_rag E doc usr chat path w
         = Some (Inr \<lparr>success = False, page_count = 0, total_chunks = 0,
                      error = Some (str ''Download failed: No data returned'')\<rparr>, w)"
  using assms
  by (auto simp: process_document_rag_def py_print_written is_surrogate_def)

theorem empty_download_witness:
  "encodable (str ''doc'')
   \<and> (storage_download empty_file (str ''a.pdf'') = Inr None
      \<or> storage_download empty_file (str ''a.pdf'') = Inr (Some []))
   \<and> process_document_rag empty_file (str ''doc'') (str ''usr'') (str ''chat'') (str ''a.pdf'')
         empty_world
       = Some (Inr \<lparr>success = False, page_count = 0, total_chunks = 0,
                    error = Some (str ''Download failed: No data returned'')\<rparr>, empty_world)"
proof -
  have 0: "encodable (str ''doc'')" by simp
  have 1: "storage_download empty_file (str ''a.pdf'') = Inr None
      \<or> storage_download empty_file (str ''a.pdf'') = Inr (Some [])"
    by (simp add: empty_file_def single_page_def)
  show ?thesis
    by (intro conjI) (rule 0 1 empty_download [OF 0 1])+
qed

text \<open>
  C10. In a run whose document id can be written, when the download and the extraction
  succeed and the cleaned text has no words, the result is a success with the page
  count of the document and 0 chunks, and the state is untouched: neither the
  embeddings API nor the table is called. No batch is handed to the callback either: a
  recording callback ends with nothing recorded.
\<close>

theorem document_without_words:
  assumes "encodable doc"
    and "storage_download E path = Inr (Some buffer)" and "buffer \<noteq> []"
    and "pdf_reader E buffer = Inr pages"
    and "extract_pages pages [] = Inr full_text"
    and "split (clean_text full_text) = []"
  shows "process_document_rag E doc usr chat path w
           = Some (Inr \<lparr>success = True, page_count = int (length pages), total_chunks = 0,
                        error = None\<rparr>, w)
         \<and> extract_and_process_pdf E buffer record_batch (chunking_options 250 30) []
           = Some (Inr (page_count_result pages), [])"
proof -
  have r: "remaining 0 220 0 = 0" by (simp add: remaining_def)
  have p: "(0::int) < 250 - 30" by simp
  have "extract_and_process_pdf E buffer (handle_batch E doc usr chat)
          (chunking_options 250 30) (0, w)
        = Some (Inr (page_count_result pages), (0, w))"
    by (simp add: extract_and_process_pdf_batches [OF assms(4,5) p] assms(6) r batches_def)
  then have "process_document_rag E doc usr chat path w
           = Some (Inr \<lparr>success = True, page_count = int (length pages), total_chunks = 0,
                        error = None\<rparr>, w)"
    using assms(1,2,3)
    by (simp add: process_document_rag_def py_print_written is_surrogate_def getitem_def)
  moreover have "extract_and_process_pdf E buffer record_batch (chunking_options 250 30) []
           = Some (Inr (page_count_result pages), [])"
    by (simp add: delivered_to_record_batch [OF assms(4,5) p] assms(6) r batches_def)
  ultimately show ?thesis by simp
qed

theorem document_without_words_witness:
  "encodable (str ''doc'')
   \<and> storage_download (single_page [32, 10, 9]) (str ''a.pdf'') = Inr (Some [37])
   \<and> [37 :: 8 word] \<noteq> []
   \<and> pdf_reader (single_page [32, 10, 9]) [37] = Inr [Inr [32, 10, 9]]
   \<and> extract_pages [Inr [32, 10, 9]] [] = Inr [32, 10, 9, 10]
   \<and> split (clean_text [32, 10, 9, 10]) = []
   \<and> process_document_rag (single_page [32, 10, 9]) (str ''doc'') (str ''usr'') (str ''chat'')
         (str ''a.pdf'') empty_world
       = Some (Inr \<lparr>success = True, page_count = int (length [Inr [32, 10, 9] :: exn + pystr]),
                    total_chunks = 0, error = None\<rparr>, empty_world)
   \<and> extract_and_process_pdf (single_page [32, 10, 9]) [37] record_batch
         (chunking_options 250 30) []
       = Some (Inr (page_count_result [Inr [32, 10, 9] :: exn + pystr]), [])"
proof -
  have 0: "encodable (str ''doc'')" by simp
  have 1: "storage_download (single_page [32, 10, 9]) (str ''a.pdf'') = Inr (Some [37])"
    by (simp add: single_page_def)
  have 2: "[37 :: 8 word] \<noteq> []" by simp
  have 3: "pdf_reader (single_page [32, 10, 9]) [37] = Inr [Inr [32, 10, 9]]"
    by (simp add: single_page_def)
  have 4: "extract_pages [Inr [32, 10, 9]] [] = Inr [32, 10, 9, 10]" by simp
  have 5: "split (clean_text [32, 10, 9, 10]) = []"
    by (simp add: run_simps)
  note c = document_without_words [OF 0 1 2 3 4 5]
  show ?thesis
    by (intro conjI) (rule 0 1 2 3 4 5 c [THEN conjunct1] c [THEN conjunct2])+
qed

text \<open>
  C5, as amended. The call always ends, and it ends with a result, not an exception,
  exactly when the two lines it prints outside the protection of its \<open>try\<close> can be
  written: the document id holds no surrogate, and neither does the message of the
  exception of a download that raises. In a run whose document id can be written: when
  the download raises, when the PDF reader raises, or when the text extraction of a page
  raises, with a message that can be written, the result is the failed result carrying
  that message, and the state is untouched. When the handler raises on a batch after the
  batches before it were handled, the result is the failed result carrying the message
  of that exception, and the final state is the one the failing call left: the batches
  after it are never handed over.
\<close>

theorem failures_are_returned:
  "(\<exists>r w'. process_document_rag E doc usr chat path w = Some (r, w'))
   \<and> ((\<exists>r w'. process_document_rag E doc usr chat path w = Some (Inr r, w'))
        \<longleftrightarrow> encodable doc
            \<and> (\<forall>e. storage_download E path = Inl e \<longrightarrow> encodable (message e)))
   \<and> (\<forall>e. encodable doc \<and> storage_download E path = Inl e \<and> encodable (message e) \<longrightarrow>
          process_document_rag E doc usr chat path w = Some (Inr (failed_result e), w))
   \<and> (\<forall>buffer e.
          encodable doc \<and> storage_download E path = Inr (Some buffer) \<and> buffer \<noteq> []
          \<and> pdf_reader E buffer = Inl e \<and> encodable (message e) \<longrightarrow>
          process_document_rag E doc usr chat path w = Some (Inr (failed_result e), w))
   \<and> (\<forall>buffer pages e.
          encodable doc \<and> storage_download E path = Inr (Some buffer) \<and> buffer \<noteq> []
          \<and> pdf_reader E buffer = Inr pages \<and> extract_pages pages [] = Inl e
          \<and> encodable (message e) \<longrightarrow>
          process_document_rag E doc usr chat path w = Some (Inr (failed_result e), w))
   \<and> (\<forall>buffer pages full_text handled b rest n w1 e w2.
          encodable doc \<and> storage_download E path = Inr (Some buffer) \<and> buffer \<noteq> []
          \<and> pdf_reader E buffer = Inr pages \<and> extract_pages pages [] = Inr full_text
          \<and> extract_and_process_pdf E buffer record_batch (chunking_options 250 30) []
              = Some (Inr (page_count_result pages), handled @ b # rest)
          \<and> run_batches (handle_batch E doc usr chat) handled (0, w) = (Inr (), (n, w1))
          \<and> handle_batch_processing E b doc usr chat w1 = (Inl e, w2) \<longrightarrow>
          process_document_rag E doc usr chat path w = Some (Inr (failed_result e), w2))"
proof (intro conjI allI impI)
  show "\<exists>r w'. process_document_rag E doc usr chat path w = Some (r, w')"
    by (rule process_document_rag_returns)
next
  show "(\<exists>r w'. process_document_rag E doc usr chat path w = Some (Inr r, w'))
        \<longleftrightarrow> encodable doc
            \<and> (\<forall>e. storage_download E path = Inl e \<longrightarrow> encodable (message e))"
    by (rule process_document_rag_contained)
next
  fix e
  assume "encodable doc \<and> storage_download E path = Inl e \<and> encodable (message e)"
  then show "process_document_rag E doc usr chat path w = Some (Inr (failed_result e), w)"
    by (simp add: process_document_rag_def py_print_written is_surrogate_def)
next
  fix buffer e
  assume "encodable doc \<and> storage_download E path = Inr (Some buffer) \<and> buffer \<noteq> []
          \<and> pdf_reader E buffer = Inl e \<and> encodable (message e)"
  then show "process_document_rag E doc usr chat path w = Some (Inr (failed_result e), w)"
    by (simp add: process_document_rag_def extract_and_process_pdf_def py_print_written
                  print_then_raise_written is_surrogate_def)
next
  fix buffer pages e
  assume "encodable doc \<and> storage_download E path = Inr (Some buffer) \<and> buffer \<noteq> []
          \<and> pdf_reader E buffer = Inr pages \<and> extract_pages pages [] = Inl e
          \<and> encodable (message e)"
  then show "process_document_rag E doc usr chat path w = Some (Inr (failed_result e), w)"
    by (simp add: process_document_rag_def extract_and_process_pdf_def py_print_written
                  print_then_raise_written is_surrogate_def)
next
  fix buffer pages full_text handled b rest n w1 e w2
  assume a: "encodable doc \<and> storage_download E path = Inr (Some buffer) \<and> buffer \<noteq> []
          \<and> pdf_reader E buffer = Inr pages \<and> extract_pages pages [] = Inr full_text
          \<and> extract_and_process_pdf E buffer record_batch (chunking_options 250 30) []
              = Some (Inr (page_count_result pages), handled @ b # rest)
          \<and> run_batches (handle_batch E doc usr chat) handled (0, w) = (Inr (), (n, w1))
          \<and> handle_batch_processing E b doc usr chat w1 = (Inl e, w2)"
  then have "run_batches (handle_batch E doc usr chat) (handled @ b # rest) (0, w)
             = (Inl e, (n, w2))"
    using run_until_failure by blast
  then show "process_document_rag E doc usr chat path w = Some (Inr (failed_result e), w2)"
    using a process_document_rag_batches [of doc E path buffer pages full_text "handled @ b # rest"]
    by simp
qed

theorem failures_are_returned_witness:
  "(encodable (str ''doc'')
    \<and> storage_download missing_file (str ''a.pdf'') = Inl (Exception (str ''not found''))
    \<and> encodable (message (Exception (str ''not found'')))
    \<and> process_document_rag missing_file (str ''doc'') (str ''usr'') (str ''chat'')
          (str ''a.pdf'') empty_world
        = Some (Inr (failed_result (Exception (str ''not found''))), empty_world))
   \<and> (encodable (str ''doc'')
    \<and> storage_download broken_pdf (str ''a.pdf'') = Inr (Some [37]) \<and> [37 :: 8 word] \<noteq> []
    \<and> pdf_reader broken_pdf [37] = Inl (Exception (str ''EOF marker not found''))
    \<and> encodable (message (Exception (str ''EOF marker not found'')))
    \<and> process_document_rag broken_pdf (str ''doc'') (str ''usr'') (str ''chat'')
          (str ''a.pdf'') empty_world
        = Some (Inr (failed_result (Exception (str ''EOF marker not found''))), empty_world))
   \<and> (encodable (str ''doc'')
    \<and> storage_download broken_page (str ''a.pdf'') = Inr (Some [37]) \<and> [37 :: 8 word] \<noteq> []
    \<and> pdf_reader broken_page [37] = Inr [Inr (str ''a''), Inl (Exception (str ''bad stream''))]
    \<and> extract_pages [Inr (str ''a''), Inl (Exception (str ''bad stream''))] []
        = Inl (Exception (str ''bad stream''))
    \<and> encodable (message (Exception (str ''bad stream'')))
    \<and> process_document_rag broken_page (str ''doc'') (str ''usr'') (str ''chat'')
          (str ''a.pdf'') empty_world
        = Some (Inr (failed_result (Exception (str ''bad stream''))), empty_world))
   \<and> (encodable (str ''doc'')
    \<and> storage_download (unreachable_api (str ''a'')) (str ''a.pdf'') = Inr (Some [37])
    \<and> [37 :: 8 word] \<noteq> []
    \<and> pdf_reader (unreachable_api (str ''a'')) [37] = Inr [Inr (str ''a'')]
    \<and> extract_pages [Inr (str ''a'')] [] = Inr (str ''a'' @ [10])
    \<and> extract_and_process_pdf (unreachable_api (str ''a'')) [37] record_batch
          (chunking_options 250 30) []
        = Some (Inr (page_count_result [Inr (str ''a'') :: exn + pystr]),
                [] @ [chunk 0 (str ''a'')] # [])
    \<and> run_batches (handle_batch (unreachable_api (str ''a'')) (str ''doc'') (str ''usr'')
                       (str ''chat'')) [] (0, empty_world)
        = (Inr (), (0, empty_world))
    \<and> handle_batch_processing (unreachable_api (str ''a'')) [chunk 0 (str ''a'')]
          (str ''doc'') (str ''usr'') (str ''chat'') empty_world
        = (Inl (Exception (str ''Batch embedding failed'')),
           empty_world\<lparr>jina_requests := [[str ''a'']]\<rparr>)
    \<and> process_document_rag (unreachable_api (str ''a'')) (str ''doc'') (str ''usr'')
          (str ''chat'') (str ''a.pdf'') empty_world
        = Some (Inr (failed_result (Exception (str ''Batch embedding failed''))),
                empty_world\<lparr>jina_requests := [[str ''a'']]\<rparr>))
   \<and> (\<exists>r w'. process_document_rag missing_file (str ''doc'') (str ''usr'') (str ''chat'')
                 (str ''a.pdf'') empty_world = Some (Inr r, w'))"
proof -
  note c = failures_are_returned [THEN conjunct2, THEN conjunct2]
  have 1: "encodable (str ''doc'')
    \<and> storage_download missing_file (str ''a.pdf'') = Inl (Exception (str ''not found''))
    \<and> encodable (message (Exception (str ''not found'')))"
    by (simp add: missing_file_def single_page_def)
  note r1 = c [THEN conjunct1, rule_format, OF 1]
  have 2: "encodable (str ''doc'')
    \<and> storage_download broken_pdf (str ''a.pdf'') = Inr (Some [37]) \<and> [37 :: 8 word] \<noteq> []
    \<and> pdf_reader broken_pdf [37] = Inl (Exception (str ''EOF marker not found''))
    \<and> encodable (message (Exception (str ''EOF marker not found'')))"
    by (simp add: broken_pdf_def single_page_def)
  note r2 = c [THEN conjunct2, THEN conjunct1, rule_format, OF 2]
  have 3: "encodable (str ''doc'')
    \<and> storage_download broken_page (str ''a.pdf'') = Inr (Some [37]) \<and> [37 :: 8 word] \<noteq> []
    \<and> pdf_reader broken_page [37] = Inr [Inr (str ''a''), Inl (Exception (str ''bad stream''))]
    \<and> extract_pages [Inr (str ''a''), Inl (Exception (str ''bad stream''))] []
        = Inl (Exception (str ''bad stream''))
    \<and> encodable (message (Exception (str ''bad stream'')))"
    by (simp add: broken_page_def single_page_def)
  note r3 = c [THEN conjunct2, THEN conjunct2, THEN conjunct1, rule_format, OF 3]
  have 4: "encodable (str ''doc'')
    \<and> storage_download (unreachable_api (str ''a'')) (str ''a.pdf'') = Inr (Some [37])
    \<and> [37 :: 8 word] \<noteq> []
    \<and> pdf_reader (unreachable_api (str ''a'')) [37] = Inr [Inr (str ''a'')]
    \<and> extract_pages [Inr (str ''a'')] [] = Inr (str ''a'' @ [10])
    \<and> extract_and_process_pdf (unreachable_api (str ''a'')) [37] record_batch
          (chunking_options 250 30) []
        = Some (Inr (page_count_result [Inr (str ''a'') :: exn + pystr]),
                [] @ [chunk 0 (str ''a'')] # [])
    \<and> run_batches (handle_batch (unreachable_api (str ''a'')) (str ''doc'') (str ''usr'')
                       (str ''chat'')) [] (0, empty_world)
        = (Inr (), (0, empty_world))
    \<and> handle_batch_processing (unreachable_api (str ''a'')) [chunk 0 (str ''a'')]
          (str ''doc'') (str ''usr'') (str ''chat'') empty_world
        = (Inl (Exception (str ''Batch embedding failed'')),
           empty_world\<lparr>jina_requests := [[str ''a'']]\<rparr>)"
    by (simp add: unreachable_api_def run_simps pipeline_simps chunk_def empty_world_def)
  note r4 = c [THEN conjunct2, THEN conjunct2, THEN conjunct2, rule_format, OF 4]
  have 5: "encodable (str ''doc'')
    \<and> (\<forall>e. storage_download missing_file (str ''a.pdf'') = Inl e \<longrightarrow> encodable (message e))"
    by (simp add: missing_file_def single_page_def)
  note r5 = failures_are_returned [THEN conjunct2, THEN conjunct1, THEN iffD2, OF 5]
  show ?thesis
    using 1 r1 2 r2 3 r3 4 r4 r5 by (intro conjI) blast+
qed

text \<open>
  C5 as stated fails. A download that raises an exception whose message is the lone
  surrogate \<open>U+D800\<close> is a failure of a stage, and the call does not return a result: the
  \<open>except\<close> clause prints the exception before it returns, \<open>print\<close> raises
  \<open>UnicodeEncodeError\<close> at position 30 of the line, and that exception leaves
  \<open>process_document_rag\<close>.
\<close>

theorem unwritable_failure_counterexample:
  "storage_download garbled_failure (str ''a.pdf'') = Inl (Exception [55296])
   \<and> process_document_rag garbled_failure (str ''doc'') (str ''usr'') (str ''chat'')
         (str ''a.pdf'') empty_world
       = Some (Inl (Exception
                 ([39] @ str ''utf-8'' @ [39] @ str '' codec can'' @ [39]
                  @ str ''t encode character '' @ [39, 92] @ str ''ud800'' @ [39]
                  @ str '' in position 30: surrogates not allowed'')),
               empty_world)"
  by (simp add: pipeline_simps garbled_failure_def single_page_def unicode_encode_error_def
                hex4_def hex_digit_def decimal.simps str_def)

text \<open>
  C9. In a run whose document id can be written, when the handler raises on a batch
  after at least one earlier batch was handled, the result is the failed result with
  page count 0 and 0 chunks, although the counter had reached the number of chunks of
  the earlier batches; the rows of those batches are still in the table, in order, after
  the rows that were there before.
\<close>

theorem failure_after_stored_batches:
  assumes "encodable doc"
    and "storage_download E path = Inr (Some buffer)" and "buffer \<noteq> []"
    and "pdf_reader E buffer = Inr pages"
    and "extract_pages pages [] = Inr full_text"
    and "extract_and_process_pdf E buffer record_batch (chunking_options 250 30) []
           = Some (Inr (page_count_result pages), handled @ b # rest)"
    and "handled \<noteq> []"
    and "run_batches (handle_batch E doc usr chat) handled (0, w) = (Inr (), (n, w1))"
    and "handle_batch_processing E b doc usr chat w1 = (Inl e, w2)"
  shows "process_document_rag E doc usr chat path w
           = Some (Inr \<lparr>success = False, page_count = 0, total_chunks = 0,
                        error = Some (message e)\<rparr>, w2)
         \<and> n = int (length (concat handled)) \<and> 0 < n
         \<and> (\<exists>rows. document_chunks w2 = document_chunks w @ rows
               \<and> length rows = length (concat handled)
               \<and> map VectorChunk.content rows = map PageChunk.content (concat handled)
               \<and> map VectorChunk.chunk_index rows = map PageChunk.chunk_index (concat handled))"
proof -
  have "run_batches (handle_batch E doc usr chat) (handled @ b # rest) (0, w) = (Inl e, (n, w2))"
    using run_until_failure [OF assms(8,9)] .
  then have 1: "process_document_rag E doc usr chat path w = Some (Inr (failed_result e), w2)"
    using process_document_rag_batches [OF assms(1-6)] by simp
  from run_batches_handle_batch [OF assms(8)] obtain rows where
    n: "n = int (length (concat handled))"
    and rows: "document_chunks w1 = document_chunks w @ rows"
      "map VectorChunk.content rows = map PageChunk.content (concat handled)"
      "map VectorChunk.chunk_index rows = map PageChunk.chunk_index (concat handled)"
    by auto
  have w2: "document_chunks w2 = document_chunks w1"
    using handle_batch_processing_rows [OF assms(9)] by simp
  have len: "length rows = length (concat handled)"
    using rows(2) by (metis length_map)
  have p: "(0::int) < 250 - 30" by simp
  have "handled @ b # rest = batches (windows_from (split (clean_text full_text)) 250 (250 - 30) 0 0
                         (remaining (length (split (clean_text full_text))) (250 - 30) 0))"
    using delivered_to_record_batch [OF assms(4,5) p] assms(6) by simp
  then have "\<forall>x\<in>set (handled @ b # rest). 0 < length x \<and> length x \<le> 5"
    using batches_bounds by simp
  then have "\<forall>x\<in>set handled. x \<noteq> []" by auto
  then have "concat handled \<noteq> []" using assms(7) by (cases handled) auto
  then have pos: "0 < n" by (simp add: n)
  show ?thesis
    using 1 n pos rows w2 len by auto
qed

lemma single_spaced_long: "single_spaced (concat (replicate n [97, 32]) @ [10])"
proof (induction n)
  case 0
  then show ?case by simp
next
  case (Suc n)
  have "\<not> hspace 97" by (simp add: hspace_def isspace_def)
  then show ?case using Suc by (cases n) simp_all
qed

lemma no_blank_lines_long: "no_blank_lines (concat (replicate n [97, 32]) @ [10])"
  by (induction n) simp_all

lemma split_long: "split (concat (replicate m [97, 32]) @ [97]) = replicate (Suc m) [97]"
  by (induction m) (simp_all add: isspace_def)

lemma strip_long:
  "strip (concat (replicate (Suc m) [97, 32]) @ [10]) = concat (replicate m [97, 32]) @ [97]"
proof -
  have s: "\<not> isspace 97" "isspace 32" by (simp_all add: isspace_def)
  have c: "concat (replicate k xs) @ xs = xs @ concat (replicate k xs)"
    for k and xs :: "nat list"
    by (induction k) simp_all
  have r: "rev (concat (replicate k [97, 32::nat])) = concat (replicate k [32, 97])" for k
    using c [of k "[32, 97]"] by (induction k) simp_all
  have r': "rev (concat (replicate k [32, 97::nat])) = concat (replicate k [97, 32])" for k
    using r [of k] by (metis rev_rev_ident)
  show ?thesis
    by (simp add: strip_def s r r' c [of m "[32, 97]"])
qed

lemma words_of_long_text: "split (clean_text (long_text @ [10])) = replicate 1101 [97]"
proof -
  have "clean_text (long_text @ [10]) = strip (long_text @ [10])"
    unfolding clean_text_def long_text_def
    by (simp only: sub_spaces_id [OF single_spaced_long] sub_newlines_id [OF no_blank_lines_long])
  also have "\<dots> = concat (replicate 1100 [97, 32]) @ [97]"
    using strip_long [of 1100] by (simp add: long_text_def)
  finally show ?thesis using split_long [of 1100] by simp
qed

lemma long_document_batches:
  "extract_and_process_pdf flaky_api [37] record_batch (chunking_options 250 30) []
     = Some (Inr (page_count_result [Inr long_text :: exn + pystr]),
             [first_batch] @ [chunk 5 (join [32] (replicate 1 [97]))] # [])"
proof -
  have 1: "pdf_reader flaky_api [37] = Inr [Inr long_text]"
    by (simp add: flaky_api_def single_page_def)
  have 2: "extract_pages [Inr long_text] [] = Inr (long_text @ [10])" by simp
  have 3: "(0::int) < 250 - 30" by simp
  have six: "remaining 1101 220 0 = Suc (Suc (Suc (Suc (Suc (Suc 0)))))"
    by (simp add: remaining_def)
  show ?thesis
    by (simp add: delivered_to_record_batch [OF 1 2 3] words_of_long_text six batches_def
                  py_slice_def slice_bound_def first_batch_def chunk_def)
qed

lemma first_batch_stored:
  "run_batches (handle_batch flaky_api (str ''doc'') (str ''usr'') (str ''chat''))
       [first_batch] (0, empty_world)
     = (Inr (), (5, stored_world))"
  by (simp add: pipeline_simps flaky_api_def single_page_def ok_response_def first_batch_def
                stored_world_def row_of_def chunk_def empty_world_def)

lemma last_batch_fails:
  "handle_batch_processing flaky_api [chunk 5 (join [32] (replicate 1 [97]))]
       (str ''doc'') (str ''usr'') (str ''chat'') stored_world
     = (Inl (Exception (str ''Batch embedding failed'')),
        stored_world\<lparr>jina_requests := jina_requests stored_world
                        @ [[join [32] (replicate 1 [97])]]\<rparr>)"
  by (simp add: pipeline_simps flaky_api_def single_page_def stored_world_def chunk_def)

theorem failure_after_stored_batches_witness:
  "encodable (str ''doc'')
   \<and> storage_download flaky_api (str ''a.pdf'') = Inr (Some [37])
   \<and> [37 :: 8 word] \<noteq> []
   \<and> pdf_reader flaky_api [37] = Inr [Inr long_text]
   \<and> extract_pages [Inr long_text] [] = Inr (long_text @ [10])
   \<and> extract_and_process_pdf flaky_api [37] record_batch (chunking_options 250 30) []
       = Some (Inr (page_count_result [Inr long_text :: exn + pystr]),
               [first_batch] @ [chunk 5 (join [32] (replicate 1 [97]))] # [])
   \<and> [first_batch] \<noteq> []
   \<and> run_batches (handle_batch flaky_api (str ''doc'') (str ''usr'') (str ''chat''))
         [first_batch] (0, empty_world)
       = (Inr (), (5, stored_world))
   \<and> handle_batch_processing flaky_api [chunk 5 (join [32] (replicate 1 [97]))]
         (str ''doc'') (str ''usr'') (str ''chat'') stored_world
       = (Inl (Exception (str ''Batch embedding failed'')),
          stored_world\<lparr>jina_requests := jina_requests stored_world
                          @ [[join [32] (replicate 1 [97])]]\<rparr>)
   \<and> (process_document_rag flaky_api (str ''doc'') (str ''usr'') (str ''chat'')
           (str ''a.pdf'') empty_world
         = Some (Inr \<lparr>success = False, page_count = 0, total_chunks = 0,
                      error = Some (message (Exception (str ''Batch embedding failed'')))\<rparr>,
                 stored_world\<lparr>jina_requests := jina_requests stored_world
                                 @ [[join [32] (replicate 1 [97])]]\<rparr>)
       \<and> (5::int) = int (length (concat [first_batch])) \<and> (0::int) < 5
       \<and> (\<exists>rows. document_chunks
                     (stored_world\<lparr>jina_requests := jina_requests stored_world
                                     @ [[join [32] (replicate 1 [97])]]\<rparr>)
                   = document_chunks empty_world @ rows
               \<and> length rows = length (concat [first_batch])
               \<and> map VectorChunk.content rows = map PageChunk.content (concat [first_batch])
               \<and> map VectorChunk.chunk_index rows
                   = map PageChunk.chunk_index (concat [first_batch])))
   \<and> map VectorChunk.chunk_index
         (document_chunks (stored_world\<lparr>jina_requests := jina_requests stored_world
                                         @ [[join [32] (replicate 1 [97])]]\<rparr>))
       = [0, 1, 2, 3, 4]"
proof -
  have 0: "encodable (str ''doc'')" by simp
  have 1: "storage_download flaky_api (str ''a.pdf'') = Inr (Some [37])"
    by (simp add: flaky_api_def single_page_def)
  have 2: "[37 :: 8 word] \<noteq> []" by simp
  have 3: "pdf_reader flaky_api [37] = Inr [Inr long_text]"
    by (simp add: flaky_api_def single_page_def)
  have 4: "extract_pages [Inr long_text] [] = Inr (long_text @ [10])" by simp
  note 5 = long_document_batches
  have 6: "[first_batch] \<noteq> []" by simp
  note 7 = first_batch_stored
  note 8 = last_batch_fails
  have 9: "map VectorChunk.chunk_index
         (document_chunks (stored_world\<lparr>jina_requests := jina_requests stored_world
                                         @ [[join [32] (replicate 1 [97])]]\<rparr>))
       = [0, 1, 2, 3, 4]"
    by (simp add: stored_world_def first_batch_def row_of_def chunk_def)
  note c = failure_after_stored_batches [OF 0 1 2 3 4 5 6 7 8]
  show ?thesis
    by (intro conjI)
       (rule 0 1 2 3 4 5 6 7 8 9 c [THEN conjunct1] c [THEN conjunct2, THEN conjunct1]
             c [THEN conjunct2, THEN conjunct2, THEN conjunct1]
             c [THEN conjunct2, THEN conjunct2, THEN conjunct2])+
qed

end
